theory Spec2Isabelle
  imports Complex_Main "HOL-Library.Sublist"
begin

section \<open>Python values, strings and errors\<close>

text \<open>
  The notebooks are Python scripts run cell by cell. An exception that a cell raises is a
  value of \<open>error\<close>; a cell that can raise returns \<open>error + state\<close>.
\<close>

datatype error =
    FileNotFoundError string
  | ParseError string
  | ValueError
  | KeyError
  | ModelError

text \<open>
  Python floats are the type parameter \<open>'f\<close>. Nothing is assumed about its subtraction,
  negation and comparison, so every statement below holds for IEEE doubles as Python computes
  with them; a float literal such as \<open>1.0\<close> is read by the function \<open>py_float\<close> of the
  external functions. A cell of a data frame holds a string, an integer or a float.
\<close>

datatype 'f pyval = PyStr string | PyInt int | PyFloat 'f

text \<open>
  \<open>s.replace(old, new)\<close>: every occurrence of \<open>old\<close> is replaced, scanning from the left and
  resuming after each occurrence found, so occurrences never overlap. With an empty \<open>old\<close>,
  \<open>new\<close> is put before every character and at the end. Python's \<open>x in s\<close> on strings is
  contiguous containment, \<^const>\<open>sublist\<close>.
\<close>

function str_replace :: "string \<Rightarrow> string \<Rightarrow> string \<Rightarrow> string" where
  "str_replace [] old new = (if old = [] then new else [])"
| "str_replace (c # cs) old new =
     (if old = [] then new @ c # str_replace cs old new
      else if prefix old (c # cs) then new @ str_replace (drop (length old) (c # cs)) old new
      else c # str_replace cs old new)"
  by pat_completeness auto
termination
  by (relation "measure (\<lambda>(s, old, new). length s)") auto

text \<open>\<open>str(n)\<close> for an integer, as \<open>"{}".format(n)\<close> prints it.\<close>

fun str_nat :: "nat \<Rightarrow> string" where
  "str_nat n =
     (if n < 10 then [''0123456789'' ! n]
      else str_nat (n div 10) @ [''0123456789'' ! (n mod 10)])"

definition str_int :: "int \<Rightarrow> string" where
  "str_int i = (if i < 0 then CHR ''-'' # str_nat (nat (- i)) else str_nat (nat i))"

section \<open>RDF graphs and files\<close>

text \<open>
  An RDF term is an \<open>rdflib\<close> node; each kind is a subclass of \<open>str\<close> and \<open>str_of\<close> is the
  string it holds. A graph (\<open>kg._g\<close>) is a set of triples. A file on disk is represented by
  what it serialises: a Turtle, JSON-LD or Parquet file by its graph, a text file by its
  characters.
\<close>

datatype node = URIRef string | Literal string string | BNode string

fun str_of :: "node \<Rightarrow> string" where
  "str_of (URIRef s) = s"
| "str_of (Literal s dt) = s"
| "str_of (BNode s) = s"

type_synonym triple = "node \<times> node \<times> node"
type_synonym graph = "triple set"

datatype file_content = Ttl graph | Jsonld graph | Parquet graph | Html | Text string

type_synonym filesystem = "string \<Rightarrow> file_content option"

text \<open>
  Modelled from the spec: \<open>kglab.KnowledgeGraph.load_ttl\<close>, \<open>save_ttl\<close>, \<open>save_jsonld\<close>,
  \<open>save_parquet\<close> and \<open>add\<close> are methods of the graph abstraction layer, which is not among
  the notebooks (section 6: load/save Turtle, JSON-LD, Parquet). Loading parses the file at
  the path into the graph, which keeps the triples it has; saving writes the graph to the
  path; \<open>add\<close> inserts one triple.
\<close>

definition load_ttl :: "string \<Rightarrow> filesystem \<Rightarrow> graph \<Rightarrow> error + graph" where
  "load_ttl path fs g =
     (case fs path of
        None \<Rightarrow> Inl (FileNotFoundError path)
      | Some (Ttl triples) \<Rightarrow> Inr (g \<union> triples)
      | Some _ \<Rightarrow> Inl (ParseError path))"

definition save_ttl :: "string \<Rightarrow> graph \<Rightarrow> filesystem \<Rightarrow> filesystem" where
  "save_ttl path g fs = fs(path \<mapsto> Ttl g)"



definition kg_add :: "node \<Rightarrow> node \<Rightarrow> node \<Rightarrow> graph \<Rightarrow> graph" where
  "kg_add s p ob g = insert (s, p, ob) g"

text \<open>
  Every notebook holds a knowledge graph \<open>kg\<close> and works in the directory of the files.
\<close>

record kernel =
  files :: filesystem
  kg_g :: graph

text \<open>Running a notebook: the cells in order, stopping at the first one that raises.\<close>

fun run_cells :: "('s \<Rightarrow> error + 's) list \<Rightarrow> 's \<Rightarrow> error + 's" where
  "run_cells [] s = Inr s"
| "run_cells (c # cs) s = (case c s of Inl e \<Rightarrow> Inl e | Inr s' \<Rightarrow> run_cells cs s')"

section \<open>The acquaintance notebook (ex01\_7)\<close>

subsection \<open>The PSL model and the state of the notebook\<close>

text \<open>
  The \<open>pslpython\<close> model is the record of what the notebook has put into it: the predicates
  and rules added, and the rows passed by \<open>add_data_row\<close>, oldest first. A row names its
  predicate and partition, carries the list of arguments and the keyword \<open>truth_value\<close>
  (\<open>None\<close> when the call leaves it out).
\<close>

datatype partition = OBSERVATIONS | TARGETS | TRUTH

datatype predicate = Predicate (pred_name: string) (pred_closed: bool) (pred_size: nat)

datatype 'f data_row =
  Data_row (dr_predicate: string) (dr_partition: partition) (dr_args: "string list")
    (dr_truth_value: "'f option")

record 'f psl_model =
  model_name :: string
  predicates :: "predicate list"
  rules :: "string list"
  data :: "'f data_row list"

text \<open>
  The calls on the libraries and the lines printed, in the order in which the notebook makes
  them.
\<close>

datatype 'f event =
    Ev_load_ttl string
  | Ev_show string
  | Ev_save_ttl string
  | Ev_add_predicate predicate
  | Ev_add_rule string
  | Ev_clear_data string
  | Ev_query string
  | Ev_add_data_row "'f data_row"
  | Ev_open string
  | Ev_infer
  | Ev_hist
  | Ev_print string

record 'f result_row =
  r_p1 :: "'f pyval"
  r_p2 :: "'f pyval"
  r_truth :: 'f
  r_diff :: "'f option"

text \<open>
  The variables of the notebook, the files on disk and the events so far. \<open>predicate\<close> holds
  the name of the predicate object the variable refers to.
\<close>

record 'f state = kernel +
  model :: "'f psl_model"
  predicate :: string
  targets :: "(string \<times> string) list"
  rows_list :: "(string \<times> string \<times> 'f) list"
  df_dat :: "(string \<times> string \<times> 'f) list"
  results :: "('f pyval \<times> 'f pyval \<times> 'f) list"
  df :: "'f result_row list"
  dat_val :: "int \<times> int \<Rightarrow> 'f option"
  events :: "'f event list"

text \<open>
  What the notebooks call and do not define: the SPARQL engine behind \<open>kg.query\<close> (for a
  query that selects two variables and for one that selects three), \<open>csv.reader\<close> with its
  delimiter, \<open>model.infer\<close> followed by the selection of the table of the predicate
  \<open>KNOWS\<close>, and the built-ins \<open>int\<close> and \<open>float\<close>.
\<close>

record 'f externals =
  kg_query :: "graph \<Rightarrow> string \<Rightarrow> (node \<times> node) list"
  kg_query3 :: "graph \<Rightarrow> string \<Rightarrow> (node \<times> node \<times> node) list"
  csv_reader :: "char \<Rightarrow> string \<Rightarrow> string list list"
  model_infer :: "'f psl_model \<Rightarrow> ('f pyval \<times> 'f pyval \<times> 'f) list option"
  py_int :: "'f pyval \<Rightarrow> int option"
  py_float :: "string \<Rightarrow> 'f"

definition init_state :: "filesystem \<Rightarrow> 'f state" where
  "init_state fs =
     \<lparr>files = fs, kg_g = {},
      model = \<lparr>model_name = [], predicates = [], rules = [], data = []\<rparr>,
      predicate = [], targets = [], rows_list = [], df_dat = [], results = [], df = [],
      dat_val = Map.empty, events = []\<rparr>"

definition log_event :: "'f event \<Rightarrow> 'f state \<Rightarrow> 'f state" where
  "log_event e s = s\<lparr>events := events s @ [e]\<rparr>"

definition print :: "string \<Rightarrow> 'f state \<Rightarrow> 'f state" where
  "print line s = log_event (Ev_print line) s"

text \<open>
  \<open>kg.get_ns(prefix).name\<close> is the IRI registered for the prefix in \<open>namespaces\<close> followed by
  the name:
  \<^verbatim>\<open>
  namespaces = {
      "acq":  "http://example.org/stuff/",
      "foaf": "http://xmlns.com/foaf/0.1/",
      "rdfs": "http://www.w3.org/2000/01/rdf-schema#",
      }
  \<close>
\<close>

definition foaf_knows :: node where
  "foaf_knows = URIRef (''http://xmlns.com/foaf/0.1/'' @ ''knows'')"

definition acq_wantsIntro :: node where
  "acq_wantsIntro = URIRef (''http://example.org/stuff/'' @ ''wantsIntro'')"

subsection \<open>Cells 1 to 3: the graph\<close>

definition cell1 :: "'f state \<Rightarrow> error + 'f state" where
  "cell1 s =
     (case load_ttl ''acq.ttl'' (files s) {} of
        Inl e \<Rightarrow> Inl e
      | Inr g \<Rightarrow> Inr (log_event (Ev_load_ttl ''acq.ttl'') (s\<lparr>kg_g := g\<rparr>)))"

definition cell2 :: "'f state \<Rightarrow> error + 'f state" where
  "cell2 s = Inr (log_event (Ev_show ''tmp.html'') (s\<lparr>files := (files s)(''tmp.html'' \<mapsto> Html)\<rparr>))"

definition cell3 :: "'f state \<Rightarrow> error + 'f state" where
  "cell3 s =
     Inr (log_event (Ev_save_ttl ''foo.ttl'') (s\<lparr>files := save_ttl ''foo.ttl'' (kg_g s) (files s)\<rparr>))"

subsection \<open>Cells 4 to 7: predicates and rules\<close>

definition add_predicate :: "predicate \<Rightarrow> 'f state \<Rightarrow> 'f state" where
  "add_predicate p s =
     log_event (Ev_add_predicate p)
       (s\<lparr>model := (model s)\<lparr>predicates := predicates (model s) @ [p]\<rparr>,
          predicate := pred_name p\<rparr>)"

definition add_rule :: "string \<Rightarrow> 'f state \<Rightarrow> 'f state" where
  "add_rule r s = log_event (Ev_add_rule r) (s\<lparr>model := (model s)\<lparr>rules := rules (model s) @ [r]\<rparr>\<rparr>)"

definition clear_data :: "string \<Rightarrow> 'f state \<Rightarrow> 'f state" where
  "clear_data name s =
     log_event (Ev_clear_data name)
       (s\<lparr>model := (model s)\<lparr>data := filter (\<lambda>r. dr_predicate r \<noteq> name) (data (model s))\<rparr>,
          predicate := name\<rparr>)"

definition cell4 :: "'f state \<Rightarrow> error + 'f state" where
  "cell4 s =
     Inr (add_predicate (Predicate ''Knows'' False 2)
           (add_predicate (Predicate ''Likes'' True 2)
             (add_predicate (Predicate ''Neighbors'' True 2)
               (s\<lparr>model := \<lparr>model_name = ''simple acquaintances'', predicates = [],
                               rules = [], data = []\<rparr>\<rparr>))))"

definition cell5 :: "'f state \<Rightarrow> error + 'f state" where
  "cell5 s =
     Inr (add_rule ''5: !Knows(P1, P2) ^2''
           (add_rule ''5: Knows(P1, P2) & Knows(P2, P3) & (P1 != P3) -> Knows(P1, P3) ^2''
             (add_rule ''10: Likes(P1, L) & Likes(P2, L) & (P1 != P2) -> Knows(P1, P2) ^2''
               (add_rule
                 ''5: Neighbors(P1, L1) & Neighbors(P2, L2) & (P1 != P2) & (L1 != L2) -> !Knows(P1, P2) ^2''
                 (add_rule
                   ''20: Neighbors(P1, L) & Neighbors(P2, L) & (P1 != P2) -> Knows(P1, P2) ^2''
                   s)))))"

definition cell6 :: "'f state \<Rightarrow> error + 'f state" where
  "cell6 s = Inr (add_rule ''Knows(P1, P2) = Knows(P2, P1) .'' s)"

definition cell7 :: "'f state \<Rightarrow> error + 'f state" where
  "cell7 s = Inr (fold (\<lambda>p. clear_data (pred_name p)) (predicates (model s)) s)"

subsection \<open>Cells 8 to 11: the observations of Neighbors and Likes\<close>

text \<open>
  \<^verbatim>\<open>
  def get_person_id (url):
      return url.replace("http://example.org/stuff/person_", "")
  \<close>
\<close>

definition get_person_id :: "node \<Rightarrow> string" where
  "get_person_id url = str_replace (str_of url) ''http://example.org/stuff/person_'' ''''"

text \<open>
  \<open>predicate = model.get_predicate(name)\<close> and \<open>predicate.add_data_row(partition, args)\<close>.
  The three names the notebook asks for are those it has added in cell 4.
\<close>

definition get_predicate :: "string \<Rightarrow> 'f state \<Rightarrow> 'f state" where
  "get_predicate name s = s\<lparr>predicate := name\<rparr>"

definition add_data_row ::
  "partition \<Rightarrow> string list \<Rightarrow> 'f option \<Rightarrow> 'f state \<Rightarrow> 'f state" where
  "add_data_row part args truth_value s =
     (let row = Data_row (predicate s) part args truth_value
      in log_event (Ev_add_data_row row) (s\<lparr>model := (model s)\<lparr>data := data (model s) @ [row]\<rparr>\<rparr>))"

definition run_query ::
  "'f externals \<Rightarrow> string \<Rightarrow> 'f state \<Rightarrow> (node \<times> node) list \<times> 'f state" where
  "run_query ext query s = (kg_query ext (kg_g s) query, log_event (Ev_query query) s)"

text \<open>
  \<^verbatim>\<open>
  for row in kg.query(query):
      p1 = get_person_id(row[0])
      p2 = get_person_id(row[1])

      if p1 != p2:
          predicate.add_data_row(Partition.OBSERVATIONS, [p1, p2])
  \<close>
\<close>

fun observe_distinct :: "(node \<times> node) list \<Rightarrow> 'f state \<Rightarrow> 'f state" where
  "observe_distinct [] s = s"
| "observe_distinct (row # rows) s =
     (let p1 = get_person_id (fst row);
          p2 = get_person_id (snd row)
      in observe_distinct rows
           (if p1 \<noteq> p2 then add_data_row OBSERVATIONS [p1, p2] None s else s))"

definition query_neighbors :: string where
  "query_neighbors = ''
SELECT DISTINCT ?p1 ?p2
  WHERE {
      ?p1 foaf:based_near ?l .
      ?p2 foaf:based_near ?l .
  }
        ''"

definition query_likes :: string where
  "query_likes = ''
SELECT DISTINCT ?p1 ?p2
  WHERE {
      ?p1 foaf:topic_interest ?t .
      ?p2 foaf:topic_interest ?t .
  }
        ''"

definition cell9 :: "'f externals \<Rightarrow> 'f state \<Rightarrow> error + 'f state" where
  "cell9 ext s =
     (case run_query ext query_neighbors (get_predicate ''Neighbors'' s) of
        (rows, s1) \<Rightarrow> Inr (observe_distinct rows s1))"

definition cell10 :: "'f externals \<Rightarrow> 'f state \<Rightarrow> error + 'f state" where
  "cell10 ext s =
     (case run_query ext query_likes (get_predicate ''Likes'' s) of
        (rows, s1) \<Rightarrow> Inr (observe_distinct rows s1))"

definition cell11 :: "'f state \<Rightarrow> error + 'f state" where
  "cell11 s = Inr (get_predicate ''Likes'' s)"

subsection \<open>Cell 12: the targets and their truth values\<close>

text \<open>
  \<^verbatim>\<open>
  for i, row in enumerate(reader):
      p1, p2 = row
      targets.append((p1, p2))

      p1_url = rdf.URIRef("http://example.org/stuff/person_" + p1)
      p2_url = rdf.URIRef("http://example.org/stuff/person_" + p2)

      if (p1_url, kg.get_ns("foaf").knows, p2_url) in kg._g:
          truth = 1.0
          predicate.add_data_row(Partition.TRUTH, [p1, p2], truth_value=truth)
          predicate.add_data_row(Partition.TARGETS, [p1, p2])
          rows_list.append({ 0: p1, 1: p2, "truth": truth})
      elif (p1_url, kg.get_ns("acq").wantsIntro, p2_url) in kg._g:
          truth = 0.0
          predicate.add_data_row(Partition.TRUTH, [p1, p2], truth_value=truth)
          predicate.add_data_row(Partition.TARGETS, [p1, p2])
          rows_list.append({ 0: p1, 1: p2, "truth": truth})
      else:
          print("UNKNOWN", p1, p2)
  \<close>
  Unpacking \<open>p1, p2 = row\<close> raises \<open>ValueError\<close> unless the row has two fields.
\<close>

definition record_target :: "string \<Rightarrow> string \<Rightarrow> 'f \<Rightarrow> 'f state \<Rightarrow> 'f state" where
  "record_target p1 p2 truth s =
     (let s1 = add_data_row TRUTH [p1, p2] (Some truth) s;
          s2 = add_data_row TARGETS [p1, p2] None s1
      in s2\<lparr>rows_list := rows_list s2 @ [(p1, p2, truth)]\<rparr>)"

fun target_row :: "'f externals \<Rightarrow> string list \<Rightarrow> 'f state \<Rightarrow> error + 'f state" where
  "target_row ext [p1, p2] s =
     (let s1 = s\<lparr>targets := targets s @ [(p1, p2)]\<rparr>;
          p1_url = URIRef (''http://example.org/stuff/person_'' @ p1);
          p2_url = URIRef (''http://example.org/stuff/person_'' @ p2)
      in if (p1_url, foaf_knows, p2_url) \<in> kg_g s1
         then Inr (record_target p1 p2 (py_float ext ''1.0'') s1)
         else if (p1_url, acq_wantsIntro, p2_url) \<in> kg_g s1
         then Inr (record_target p1 p2 (py_float ext ''0.0'') s1)
         else Inr (print (''UNKNOWN '' @ p1 @ '' '' @ p2) s1))"
| "target_row ext row s = Inl ValueError"

fun target_rows :: "'f externals \<Rightarrow> string list list \<Rightarrow> 'f state \<Rightarrow> error + 'f state" where
  "target_rows ext [] s = Inr s"
| "target_rows ext (row # rows) s =
     (case target_row ext row s of Inl e \<Rightarrow> Inl e | Inr s' \<Rightarrow> target_rows ext rows s')"

definition cell12 :: "'f externals \<Rightarrow> 'f state \<Rightarrow> error + 'f state" where
  "cell12 ext s =
     (let s1 = get_predicate ''Knows'' (s\<lparr>targets := [], rows_list := []\<rparr>)
      in case files s1 ''dat/psl/knows_targets.txt'' of
           None \<Rightarrow> Inl (FileNotFoundError ''dat/psl/knows_targets.txt'')
         | Some (Text f) \<Rightarrow>
             (case target_rows ext (csv_reader ext (CHR 0x09) f)
                     (log_event (Ev_open ''dat/psl/knows_targets.txt'') s1) of
                Inl e \<Rightarrow> Inl e
              | Inr s2 \<Rightarrow> Inr (s2\<lparr>df_dat := rows_list s2\<rparr>))
         | Some _ \<Rightarrow> Inl (ParseError ''dat/psl/knows_targets.txt''))"

subsection \<open>Cell 13: the observations of Knows\<close>

text \<open>
  \<^verbatim>\<open>
  for row in kg.query(query):
      p1 = get_person_id(row[0])
      p2 = get_person_id(row[1])

      if (p1, p2) not in targets:
          predicate.add_data_row(Partition.OBSERVATIONS, [p1, p2], truth_value=1.0)
  \<close>
  and the same loop with \<open>truth_value=0.0\<close> for the second query.
\<close>

fun observe_known :: "'f \<Rightarrow> (node \<times> node) list \<Rightarrow> 'f state \<Rightarrow> 'f state" where
  "observe_known truth_value [] s = s"
| "observe_known truth_value (row # rows) s =
     (let p1 = get_person_id (fst row);
          p2 = get_person_id (snd row)
      in observe_known truth_value rows
           (if (p1, p2) \<notin> set (targets s)
            then add_data_row OBSERVATIONS [p1, p2] (Some truth_value) s else s))"

definition query_knows :: string where
  "query_knows = ''
SELECT ?p1 ?p2
  WHERE {
      ?p1 foaf:knows ?p2 .
  }
  ORDER BY ?p1 ?p2
        ''"

definition query_wantsIntro :: string where
  "query_wantsIntro = ''
SELECT ?p1 ?p2
  WHERE {
      ?p1 acq:wantsIntro ?p2 .
  }
  ORDER BY ?p1 ?p2
        ''"

definition cell13 :: "'f externals \<Rightarrow> 'f state \<Rightarrow> error + 'f state" where
  "cell13 ext s =
     (case run_query ext query_knows (get_predicate ''Knows'' s) of
        (rows, s1) \<Rightarrow>
          (case run_query ext query_wantsIntro
                  (observe_known (py_float ext ''1.0'') rows s1) of
             (rows', s2) \<Rightarrow> Inr (observe_known (py_float ext ''0.0'') rows' s2)))"

subsection \<open>Cells 14 to 18: inference and comparison\<close>

text \<open>
  \<open>results = model.infer(...)\<close>, then \<open>df = results[predicate]\<close> for the predicate
  \<open>KNOWS\<close>: one row per target with the two identifiers and the inferred probability in the
  column \<open>truth\<close>.
\<close>

definition cell14 :: "'f externals \<Rightarrow> 'f state \<Rightarrow> error + 'f state" where
  "cell14 ext s =
     (case model_infer ext (model s) of
        None \<Rightarrow> Inl ModelError
      | Some table \<Rightarrow> Inr (log_event Ev_infer (s\<lparr>results := table\<rparr>)))"

definition cell15 :: "'f state \<Rightarrow> error + 'f state" where
  "cell15 s =
     Inr (s\<lparr>predicate := ''KNOWS'',
            df := map (\<lambda>(p1, p2, t). \<lparr>r_p1 = p1, r_p2 = p2, r_truth = t, r_diff = None\<rparr>)
                    (results s)\<rparr>)"

text \<open>
  \<^verbatim>\<open>
  dat_val = {}

  for index, row in df_dat.iterrows():
      p1 = row[0]
      p2 = row[1]
      key = (int(p1), int(p2))
      dat_val[key] = row["truth"]

  for index, row in df.iterrows():
      p1 = row[0]
      p2 = row[1]
      key = (int(p1), int(p2))
      df.at[index, "diff"] = row["truth"] - dat_val[key]
  \<close>
  \<open>int\<close> raises \<open>ValueError\<close> on a value it cannot read, and \<open>dat_val[key]\<close> raises
  \<open>KeyError\<close> on a key that was never stored.
\<close>

definition key_of :: "'f externals \<Rightarrow> 'f pyval \<Rightarrow> 'f pyval \<Rightarrow> error + int \<times> int" where
  "key_of ext p1 p2 =
     (case py_int ext p1 of
        None \<Rightarrow> Inl ValueError
      | Some a \<Rightarrow> (case py_int ext p2 of None \<Rightarrow> Inl ValueError | Some b \<Rightarrow> Inr (a, b)))"

fun fill_dat_val ::
  "'f externals \<Rightarrow> (string \<times> string \<times> 'f) list \<Rightarrow> (int \<times> int \<Rightarrow> 'f option) \<Rightarrow>
   error + (int \<times> int \<Rightarrow> 'f option)" where
  "fill_dat_val ext [] d = Inr d"
| "fill_dat_val ext ((p1, p2, truth) # rows) d =
     (case key_of ext (PyStr p1) (PyStr p2) of
        Inl e \<Rightarrow> Inl e
      | Inr key \<Rightarrow> fill_dat_val ext rows (d(key \<mapsto> truth)))"

fun fill_diff ::
  "'f::minus externals \<Rightarrow> (int \<times> int \<Rightarrow> 'f option) \<Rightarrow> 'f result_row list \<Rightarrow>
   error + 'f result_row list" where
  "fill_diff ext d [] = Inr []"
| "fill_diff ext d (row # rows) =
     (case key_of ext (r_p1 row) (r_p2 row) of
        Inl e \<Rightarrow> Inl e
      | Inr key \<Rightarrow>
          (case d key of
             None \<Rightarrow> Inl KeyError
           | Some t \<Rightarrow>
               (case fill_diff ext d rows of
                  Inl e \<Rightarrow> Inl e
                | Inr rows' \<Rightarrow> Inr (row\<lparr>r_diff := Some (r_truth row - t)\<rparr> # rows'))))"

definition cell16 :: "'f::minus externals \<Rightarrow> 'f state \<Rightarrow> error + 'f state" where
  "cell16 ext s =
     (case fill_dat_val ext (df_dat s) Map.empty of
        Inl e \<Rightarrow> Inl e
      | Inr d \<Rightarrow>
          (case fill_diff ext d (df s) of
             Inl e \<Rightarrow> Inl e
           | Inr rows \<Rightarrow> Inr (s\<lparr>dat_val := d, df := rows\<rparr>)))"

text \<open>\<open>df["diff"].hist()\<close>: the column exists once a row has been given a difference.\<close>

definition cell17 :: "'f state \<Rightarrow> error + 'f state" where
  "cell17 s =
     (if list_ex (\<lambda>row. r_diff row \<noteq> None) (df s) then Inr (log_event Ev_hist s) else Inl KeyError)"

text \<open>
  \<^verbatim>\<open>
  for index, row in df.iterrows():
      p1 = row[0]
      p2 = row[1]
      diff = row["diff"]

      if diff < -0.2:
          print("?? acq:person_{} foaf:knows acq:person_{}".format(int(row[0]), int(row[1])))
  \<close>
\<close>

definition suspect_line :: "int \<Rightarrow> int \<Rightarrow> string" where
  "suspect_line a b = ''?? acq:person_'' @ str_int a @ '' foaf:knows acq:person_'' @ str_int b"

fun report_suspects ::
  "'f::{uminus,ord} externals \<Rightarrow> 'f result_row list \<Rightarrow> 'f state \<Rightarrow> error + 'f state" where
  "report_suspects ext [] s = Inr s"
| "report_suspects ext (row # rows) s =
     (case r_diff row of
        None \<Rightarrow> Inl KeyError
      | Some diff \<Rightarrow>
          if diff < - py_float ext ''0.2''
          then (case key_of ext (r_p1 row) (r_p2 row) of
                  Inl e \<Rightarrow> Inl e
                | Inr (a, b) \<Rightarrow> report_suspects ext rows (print (suspect_line a b) s))
          else report_suspects ext rows s)"

definition cell18 :: "'f::{uminus,ord} externals \<Rightarrow> 'f state \<Rightarrow> error + 'f state" where
  "cell18 ext s = report_suspects ext (df s) s"

definition ex01_7_cells ::
  "'f::{minus,uminus,ord} externals \<Rightarrow> ('f state \<Rightarrow> error + 'f state) list" where
  "ex01_7_cells ext =
     [cell1, cell2, cell3, cell4, cell5, cell6, cell7, cell9 ext, cell10 ext, cell11,
      cell12 ext, cell13 ext, cell14 ext, cell15, cell16 ext, cell17, cell18 ext]"

definition ex01_7 :: "'f::{minus,uminus,ord} externals \<Rightarrow> filesystem \<Rightarrow> error + 'f state" where
  "ex01_7 ext fs = run_cells (ex01_7_cells ext) (init_state fs)"

section \<open>The recipe notebooks (ex01\_2 and ex01\_5)\<close>

text \<open>
  \<open>kg.get_ns("wtm").name\<close>, \<open>kg.get_ns("ind").name\<close> and \<open>kg.get_ns("nom").name\<close> with
  \<^verbatim>\<open>
  namespaces = {
      "wtm": "http://purl.org/heals/food/",
      "ind": "http://purl.org/heals/ingredient/",
      "nom": "https://github.com/DerwenAI/kglab/wiki/Vocab#",
      }
  \<close>
  and the terms \<open>RDF.type\<close> and \<open>XSD.integer\<close> of \<open>rdflib.namespace\<close>.
\<close>

definition wtm :: "string \<Rightarrow> node" where
  "wtm name = URIRef (''http://purl.org/heals/food/'' @ name)"

definition ind :: "string \<Rightarrow> node" where
  "ind name = URIRef (''http://purl.org/heals/ingredient/'' @ name)"

definition nom :: "string \<Rightarrow> node" where
  "nom name = URIRef (''https://github.com/DerwenAI/kglab/wiki/Vocab#'' @ name)"

definition RDF_type :: node where
  "RDF_type = URIRef ''http://www.w3.org/1999/02/22-rdf-syntax-ns#type''"


subsection \<open>ex01\_2: a graph of one recipe, saved in three formats\<close>







subsection \<open>ex01\_5: queries and annotations\<close>

text \<open>
  Cells 1 to 5 parse a string into an \<open>rdflib\<close> graph of their own and print the rows of a
  query over it; they use neither \<open>kg\<close> nor a file. The notebook as modelled starts at cell 6.
  \<open>printed\<close> holds the text of each \<open>print\<close> call.
\<close>

record recipes = kernel +
  tally :: "string list"
  printed :: "string list"






definition query_flour_eggs_salt :: string where
  "query_flour_eggs_salt = ''
SELECT ?rec ?def
  WHERE {
    ?rec rdf:type wtm:Recipe .
    ?rec skos:definition ?def .
    ?rec wtm:hasIngredient ind:ChickenEgg .
    ?rec wtm:hasIngredient ind:AllPurposeFlour .
    ?rec wtm:hasIngredient ind:Salt
  }
        ''"

text \<open>
  \<^verbatim>\<open>
  tally = []

  for row in kg.query(query):
      url, recipe_name = row

      # collect two flags to evaluate our noodle vs. pancake rules
      has_butter = (url, kg.get_ns("wtm").hasIngredient, kg.get_ns("ind").Butter) in kg._g
      sez_noodle =  any([x in recipe_name for x in ["noodle", "spaetzle", "dumpling", "pasta"]])

      tally.append(str([ has_butter, sez_noodle ]))
      print("{}\n {}\n {} {}\n".format(url, recipe_name, has_butter, sez_noodle))
  \<close>
\<close>

definition py_any :: "bool list \<Rightarrow> bool" where
  "py_any bs = foldr (\<or>) bs False"

definition str_bool :: "bool \<Rightarrow> string" where
  "str_bool b = (if b then ''True'' else ''False'')"

definition has_butter :: "graph \<Rightarrow> node \<Rightarrow> bool" where
  "has_butter g url = ((url, wtm ''hasIngredient'', ind ''Butter'') \<in> g)"

definition sez_noodle :: "node \<Rightarrow> bool" where
  "sez_noodle recipe_name =
     py_any (map (\<lambda>x. sublist x (str_of recipe_name))
               [''noodle'', ''spaetzle'', ''dumpling'', ''pasta''])"

fun flag_recipes :: "(node \<times> node) list \<Rightarrow> recipes \<Rightarrow> recipes" where
  "flag_recipes [] s = s"
| "flag_recipes ((url, recipe_name) # rows) s =
     flag_recipes rows
       (s\<lparr>tally := tally s @
            [''['' @ str_bool (has_butter (kg_g s) url) @ '', '' @
             str_bool (sez_noodle recipe_name) @ '']''],
          printed := printed s @
            [str_of url @ [CHR 0x0A] @ '' '' @ str_of recipe_name @ [CHR 0x0A] @ '' '' @
             str_bool (has_butter (kg_g s) url) @ '' '' @ str_bool (sez_noodle recipe_name) @
             [CHR 0x0A]]\<rparr>)"

definition ex5_cell11 :: "'f externals \<Rightarrow> recipes \<Rightarrow> error + recipes" where
  "ex5_cell11 ext s =
     Inr (flag_recipes (kg_query ext (kg_g s) query_flour_eggs_salt) (s\<lparr>tally := []\<rparr>))"

text \<open>
  Cells 13 to 15. \<open>noodle_ids\<close> and \<open>pancake_ids\<close> are Python sets, written here as the
  lists of their elements; a loop over a set visits each element once, in an order that
  does not matter here, because \<open>kg.add\<close> inserts into a set of triples.
  \<^verbatim>\<open>
  for id in noodle_ids:
      url = f"https://www.food.com/recipe/{id}"
      node = rdf.URIRef(url)
      kg.add(node, RDF.type, kg.get_ns("nom").Noodle)
  \<close>
\<close>

definition noodle_ids :: "string list" where
  "noodle_ids =
     [''400'', ''86710'', ''331765'', ''508734'', ''320154'', ''220361'', ''148900'', ''317697'',
      ''252783'', ''137357'', ''1975'', ''31041'', ''441475'', ''261361'', ''124106'', ''78459'',
      ''358908'', ''103964'', ''91311'', ''497918'', ''328388'']"

definition pancake_ids :: "string list" where
  "pancake_ids =
     [''277824'', ''489'', ''4643'', ''272746'', ''12055'', ''124131'', ''40772'', ''459'',
      ''48178'', ''124176'', ''61108'', ''111008'', ''262038'', ''458'', ''440398'', ''157638'']"

fun annotate :: "node \<Rightarrow> string list \<Rightarrow> graph \<Rightarrow> graph" where
  "annotate cls [] g = g"
| "annotate cls (ident # ids) g =
     (let url = ''https://www.food.com/recipe/'' @ ident;
          node = URIRef url
      in annotate cls ids (kg_add node RDF_type cls g))"

definition ex5_cell15 :: "recipes \<Rightarrow> error + recipes" where
  "ex5_cell15 s =
     (let g = annotate (nom ''Pancake'') pancake_ids (annotate (nom ''Noodle'') noodle_ids (kg_g s))
      in Inr (s\<lparr>kg_g := g, files := save_ttl ''tmp.ttl'' g (files s)\<rparr>))"



section \<open>The reader of the standard library\<close>

text \<open>
  Cell 12 reads its file with \<open>csv.reader(f, delimiter="\t")\<close>, where \<open>f\<close> is the file opened
  in text mode. The reader is the one of CPython (\<open>Modules/_csv.c\<close>), with the dialect
  \<open>excel\<close> apart from the delimiter: the quote character is the double quote, a doubled
  quote inside a quoted field stands for one, there is no escape character, initial spaces
  are kept, and the reader is not strict. \<open>parse_process_char\<close> is the state machine of that
  file, its argument \<open>None\<close> being the end of a line; the states of an escape character
  cannot be reached and are left out. A field of more than \<open>field_limit\<close> characters raises
  \<open>csv.Error\<close>, which is the result \<open>None\<close>.
\<close>

datatype parse_state =
  START_RECORD | START_FIELD | IN_FIELD | IN_QUOTED_FIELD | QUOTE_IN_QUOTED_FIELD | EAT_CRNL

record reader =
  rd_fields :: "string list"
  rd_field :: string
  rd_state :: parse_state

definition field_limit :: nat where
  "field_limit = 131072"

definition parse_reset :: reader where
  "parse_reset = \<lparr>rd_fields = [], rd_field = [], rd_state = START_RECORD\<rparr>"

definition parse_save_field :: "reader \<Rightarrow> reader" where
  "parse_save_field r = r\<lparr>rd_fields := rd_fields r @ [rd_field r], rd_field := []\<rparr>"

definition parse_add_char :: "char \<Rightarrow> reader \<Rightarrow> reader option" where
  "parse_add_char c r =
     (if field_limit \<le> length (rd_field r) then None
      else Some (r\<lparr>rd_field := rd_field r @ [c]\<rparr>))"

definition end_of_record :: "char option \<Rightarrow> reader \<Rightarrow> reader option" where
  "end_of_record c r =
     Some ((parse_save_field r)\<lparr>rd_state := (if c = None then START_RECORD else EAT_CRNL)\<rparr>)"

definition start_field :: "char \<Rightarrow> char option \<Rightarrow> reader \<Rightarrow> reader option" where
  "start_field delimiter c r =
     (if c = Some (CHR 0x0A) \<or> c = Some (CHR 0x0D) \<or> c = None then end_of_record c r
      else if c = Some (CHR 0x22) then Some (r\<lparr>rd_state := IN_QUOTED_FIELD\<rparr>)
      else if c = Some delimiter then Some (parse_save_field r)
      else map_option (\<lambda>r'. r'\<lparr>rd_state := IN_FIELD\<rparr>) (parse_add_char (the c) r))"

definition parse_process_char :: "char \<Rightarrow> char option \<Rightarrow> reader \<Rightarrow> reader option" where
  "parse_process_char delimiter c r =
     (case rd_state r of
        START_RECORD \<Rightarrow>
          if c = None then Some r
          else if c = Some (CHR 0x0A) \<or> c = Some (CHR 0x0D) then Some (r\<lparr>rd_state := EAT_CRNL\<rparr>)
          else start_field delimiter c (r\<lparr>rd_state := START_FIELD\<rparr>)
      | START_FIELD \<Rightarrow> start_field delimiter c r
      | IN_FIELD \<Rightarrow>
          if c = Some (CHR 0x0A) \<or> c = Some (CHR 0x0D) \<or> c = None then end_of_record c r
          else if c = Some delimiter then Some ((parse_save_field r)\<lparr>rd_state := START_FIELD\<rparr>)
          else parse_add_char (the c) r
      | IN_QUOTED_FIELD \<Rightarrow>
          if c = None then Some r
          else if c = Some (CHR 0x22) then Some (r\<lparr>rd_state := QUOTE_IN_QUOTED_FIELD\<rparr>)
          else parse_add_char (the c) r
      | QUOTE_IN_QUOTED_FIELD \<Rightarrow>
          if c = Some (CHR 0x22)
          then map_option (\<lambda>r'. r'\<lparr>rd_state := IN_QUOTED_FIELD\<rparr>) (parse_add_char (CHR 0x22) r)
          else if c = Some delimiter then Some ((parse_save_field r)\<lparr>rd_state := START_FIELD\<rparr>)
          else if c = Some (CHR 0x0A) \<or> c = Some (CHR 0x0D) \<or> c = None then end_of_record c r
          else map_option (\<lambda>r'. r'\<lparr>rd_state := IN_FIELD\<rparr>) (parse_add_char (the c) r)
      | EAT_CRNL \<Rightarrow>
          if c = Some (CHR 0x0A) \<or> c = Some (CHR 0x0D) then Some r
          else if c = None then Some (r\<lparr>rd_state := START_RECORD\<rparr>)
          else None)"

text \<open>
  \<open>Reader_iternext\<close> feeds the machine the characters of one line after the other, then the
  end of the line, until a record is complete; a quoted field may go on over several lines.
  Up to Python 3.10 a NUL character raises \<open>csv.Error\<close> (the notebook names Python 3.7.4);
  from Python 3.11 on it is an ordinary character: \<open>nul_error\<close> tells which. \<open>reader_rows\<close>
  is the iteration \<open>for row in reader\<close>: the rows yielded, in order, and whether the
  iteration then ended with \<open>csv.Error\<close> rather than with the end of the file.
\<close>

fun process_chars :: "bool \<Rightarrow> char \<Rightarrow> string \<Rightarrow> reader \<Rightarrow> reader option" where
  "process_chars nul_error delimiter [] r = Some r"
| "process_chars nul_error delimiter (c # cs) r =
     (if nul_error \<and> c = CHR 0x00 then None
      else case parse_process_char delimiter (Some c) r of
             None \<Rightarrow> None
           | Some r' \<Rightarrow> process_chars nul_error delimiter cs r')"

definition process_line :: "bool \<Rightarrow> char \<Rightarrow> string \<Rightarrow> reader \<Rightarrow> reader option" where
  "process_line nul_error delimiter line r =
     (case process_chars nul_error delimiter line r of
        None \<Rightarrow> None
      | Some r' \<Rightarrow> parse_process_char delimiter None r')"

fun reader_rows :: "bool \<Rightarrow> char \<Rightarrow> reader \<Rightarrow> string list \<Rightarrow> string list list \<times> bool" where
  "reader_rows nul_error delimiter r [] =
     (if rd_field r \<noteq> [] \<or> rd_state r = IN_QUOTED_FIELD
      then ([rd_fields (parse_save_field r)], False) else ([], False))"
| "reader_rows nul_error delimiter r (line # lines) =
     (case process_line nul_error delimiter line r of
        None \<Rightarrow> ([], True)
      | Some r' \<Rightarrow>
          if rd_state r' = START_RECORD
          then (case reader_rows nul_error delimiter parse_reset lines of
                  (rows, raised) \<Rightarrow> (rd_fields r' # rows, raised))
          else reader_rows nul_error delimiter r' lines)"

text \<open>
  A file opened with \<open>open(path, "r")\<close> translates \<open>\r\n\<close> and \<open>\r\<close> to \<open>\n\<close>, and iterating
  over it yields its lines, each with its line feed; the last line may have none.
\<close>

fun universal_newlines :: "string \<Rightarrow> string" where
  "universal_newlines [] = []"
| "universal_newlines [c] = (if c = CHR 0x0D then [CHR 0x0A] else [c])"
| "universal_newlines (c # c' # cs) =
     (if c = CHR 0x0D \<and> c' = CHR 0x0A then CHR 0x0A # universal_newlines cs
      else if c = CHR 0x0D then CHR 0x0A # universal_newlines (c' # cs)
      else c # universal_newlines (c' # cs))"

fun readlines :: "string \<Rightarrow> string list" where
  "readlines [] = []"
| "readlines (c # cs) =
     (if c = CHR 0x0A then [c] # readlines cs
      else case readlines cs of [] \<Rightarrow> [[c]] | line # lines \<Rightarrow> (c # line) # lines)"

definition file_lines :: "string \<Rightarrow> string list" where
  "file_lines text = readlines (universal_newlines text)"

definition csv_reader_py :: "bool \<Rightarrow> char \<Rightarrow> string \<Rightarrow> string list list \<times> bool" where
  "csv_reader_py nul_error delimiter text =
     reader_rows nul_error delimiter parse_reset (file_lines text)"

definition csv_reader_rows :: "char \<Rightarrow> string \<Rightarrow> string list list" where
  "csv_reader_rows delimiter text = fst (csv_reader_py True delimiter text)"

section \<open>Notions used in the statements\<close>

definition observed_distinct :: "string \<Rightarrow> (node \<times> node) list \<Rightarrow> 'f data_row list" where
  "observed_distinct p rows =
     [Data_row p OBSERVATIONS [get_person_id a, get_person_id b] None.
        (a, b) \<leftarrow> rows, get_person_id a \<noteq> get_person_id b]"

definition observed_known ::
  "string \<Rightarrow> 'f \<Rightarrow> (string \<times> string) list \<Rightarrow> (node \<times> node) list \<Rightarrow> 'f data_row list" where
  "observed_known p tv ts rows =
     [Data_row p OBSERVATIONS [get_person_id a, get_person_id b] (Some tv).
        (a, b) \<leftarrow> rows, (get_person_id a, get_person_id b) \<notin> set ts]"

definition truth_for :: "'f externals \<Rightarrow> graph \<Rightarrow> string \<Rightarrow> string \<Rightarrow> 'f option" where
  "truth_for ext g p1 p2 =
     (if (URIRef (''http://example.org/stuff/person_'' @ p1), foaf_knows,
          URIRef (''http://example.org/stuff/person_'' @ p2)) \<in> g
      then Some (py_float ext ''1.0'')
      else if (URIRef (''http://example.org/stuff/person_'' @ p1), acq_wantsIntro,
               URIRef (''http://example.org/stuff/person_'' @ p2)) \<in> g
      then Some (py_float ext ''0.0'')
      else None)"

fun row_pair :: "string list \<Rightarrow> (string \<times> string) list" where
  "row_pair [p1, p2] = [(p1, p2)]"
| "row_pair row = []"

fun row_data :: "'f externals \<Rightarrow> graph \<Rightarrow> string \<Rightarrow> string list \<Rightarrow> 'f data_row list" where
  "row_data ext g p [p1, p2] =
     (case truth_for ext g p1 p2 of
        Some t \<Rightarrow> [Data_row p TRUTH [p1, p2] (Some t), Data_row p TARGETS [p1, p2] None]
      | None \<Rightarrow> [])"
| "row_data ext g p row = []"

fun row_truth :: "'f externals \<Rightarrow> graph \<Rightarrow> string list \<Rightarrow> (string \<times> string \<times> 'f) list" where
  "row_truth ext g [p1, p2] =
     (case truth_for ext g p1 p2 of Some t \<Rightarrow> [(p1, p2, t)] | None \<Rightarrow> [])"
| "row_truth ext g row = []"

fun row_events :: "'f externals \<Rightarrow> graph \<Rightarrow> string \<Rightarrow> string list \<Rightarrow> 'f event list" where
  "row_events ext g p [p1, p2] =
     (case truth_for ext g p1 p2 of
        Some t \<Rightarrow> [Ev_add_data_row (Data_row p TRUTH [p1, p2] (Some t)),
                   Ev_add_data_row (Data_row p TARGETS [p1, p2] None)]
      | None \<Rightarrow> [Ev_print (''UNKNOWN '' @ p1 @ '' '' @ p2)])"
| "row_events ext g p row = []"

fun queries_of :: "'f event list \<Rightarrow> string list" where
  "queries_of [] = []"
| "queries_of (Ev_query q # es) = q # queries_of es"
| "queries_of (e # es) = queries_of es"

fun rows_of :: "'f event list \<Rightarrow> 'f data_row list" where
  "rows_of [] = []"
| "rows_of (Ev_add_data_row r # es) = r # rows_of es"
| "rows_of (e # es) = rows_of es"

definition recorded :: "'f externals \<Rightarrow> (string \<times> string \<times> 'f) list \<Rightarrow> int \<times> int \<Rightarrow> 'f list" where
  "recorded ext rows key =
     [t. (p1, p2, t) \<leftarrow> rows, key_of ext (PyStr p1) (PyStr p2) = Inr key]"

definition preparation_events :: "'f event list" where
  "preparation_events =
     [Ev_show ''tmp.html'', Ev_save_ttl ''foo.ttl'',
      Ev_add_predicate (Predicate ''Neighbors'' True 2),
      Ev_add_predicate (Predicate ''Likes'' True 2),
      Ev_add_predicate (Predicate ''Knows'' False 2),
      Ev_add_rule ''20: Neighbors(P1, L) & Neighbors(P2, L) & (P1 != P2) -> Knows(P1, P2) ^2'',
      Ev_add_rule
        ''5: Neighbors(P1, L1) & Neighbors(P2, L2) & (P1 != P2) & (L1 != L2) -> !Knows(P1, P2) ^2'',
      Ev_add_rule ''10: Likes(P1, L) & Likes(P2, L) & (P1 != P2) -> Knows(P1, P2) ^2'',
      Ev_add_rule ''5: Knows(P1, P2) & Knows(P2, P3) & (P1 != P3) -> Knows(P1, P3) ^2'',
      Ev_add_rule ''5: !Knows(P1, P2) ^2'',
      Ev_add_rule ''Knows(P1, P2) = Knows(P2, P1) .'',
      Ev_clear_data ''Neighbors'', Ev_clear_data ''Likes'', Ev_clear_data ''Knows'']"

definition acquaintance_rules :: "string list" where
  "acquaintance_rules =
     [''20: Neighbors(P1, L) & Neighbors(P2, L) & (P1 != P2) -> Knows(P1, P2) ^2'',
      ''5: Neighbors(P1, L1) & Neighbors(P2, L2) & (P1 != P2) & (L1 != L2) -> !Knows(P1, P2) ^2'',
      ''10: Likes(P1, L) & Likes(P2, L) & (P1 != P2) -> Knows(P1, P2) ^2'',
      ''5: Knows(P1, P2) & Knows(P2, P3) & (P1 != P3) -> Knows(P1, P3) ^2'',
      ''5: !Knows(P1, P2) ^2'',
      ''Knows(P1, P2) = Knows(P2, P1) .'']"

definition loading_data :: "'f externals \<Rightarrow> graph \<Rightarrow> string list list \<Rightarrow> 'f data_row list list" where
  "loading_data ext g rows =
     [observed_distinct ''Neighbors'' (kg_query ext g query_neighbors),
      observed_distinct ''Likes'' (kg_query ext g query_likes),
      concat (map (row_data ext g ''Knows'') rows),
      observed_known ''Knows'' (py_float ext ''1.0'') (concat (map row_pair rows))
        (kg_query ext g query_knows),
      observed_known ''Knows'' (py_float ext ''0.0'') (concat (map row_pair rows))
        (kg_query ext g query_wantsIntro)]"

definition loading_events :: "'f externals \<Rightarrow> graph \<Rightarrow> string list list \<Rightarrow> 'f event list" where
  "loading_events ext g rows =
     Ev_query query_neighbors # map Ev_add_data_row (loading_data ext g rows ! 0) @
     Ev_query query_likes # map Ev_add_data_row (loading_data ext g rows ! 1) @
     Ev_open ''dat/psl/knows_targets.txt'' # concat (map (row_events ext g ''Knows'') rows) @
     Ev_query query_knows # map Ev_add_data_row (loading_data ext g rows ! 3) @
     Ev_query query_wantsIntro # map Ev_add_data_row (loading_data ext g rows ! 4)"

definition declared :: "predicate list" where
  "declared =
     [Predicate ''Neighbors'' True 2, Predicate ''Likes'' True 2, Predicate ''Knows'' False 2]"

definition flags_entry :: "bool \<Rightarrow> bool \<Rightarrow> string" where
  "flags_entry butter noodle = ''['' @ str_bool butter @ '', '' @ str_bool noodle @ '']''"

definition flags_line :: "node \<Rightarrow> node \<Rightarrow> bool \<Rightarrow> bool \<Rightarrow> string" where
  "flags_line url recipe_name butter noodle =
     str_of url @ [CHR 0x0A] @ '' '' @ str_of recipe_name @ [CHR 0x0A] @ '' '' @
     str_bool butter @ '' '' @ str_bool noodle @ [CHR 0x0A]"


definition recipe_node :: "string \<Rightarrow> node" where
  "recipe_node ident = URIRef (''https://www.food.com/recipe/'' @ ident)"

definition annotations :: graph where
  "annotations =
     annotate (nom ''Pancake'') pancake_ids (annotate (nom ''Noodle'') noodle_ids {})"


text \<open>
  The tab-separated fields of a line, as \<open>line.rstrip("\n").split("\t")\<close> gives them.
\<close>

fun split_on :: "char \<Rightarrow> string \<Rightarrow> string list" where
  "split_on sep [] = [[]]"
| "split_on sep (c # cs) =
     (if c = sep then [] # split_on sep cs
      else (c # hd (split_on sep cs)) # tl (split_on sep cs))"

definition tab_fields :: "string \<Rightarrow> string list" where
  "tab_fields line =
     split_on (CHR 0x09) (if line \<noteq> [] \<and> last line = CHR 0x0A then butlast line else line)"

section \<open>A small run, for the witnesses\<close>

definition sample_float :: "string \<Rightarrow> real" where
  "sample_float lit =
     (if lit = ''1.0'' then 1 else if lit = ''0.2'' then 2 / 10 else 0)"

fun sample_digits :: "string \<Rightarrow> int \<Rightarrow> int option" where
  "sample_digits [] acc = Some acc"
| "sample_digits (c # cs) acc =
     (if c \<in> set ''0123456789''
      then sample_digits cs (10 * acc + (int (of_char c) - 48)) else None)"

fun sample_int :: "real pyval \<Rightarrow> int option" where
  "sample_int (PyInt n) = Some n"
| "sample_int (PyStr s) = (if s = [] then None else sample_digits s 0)"
| "sample_int (PyFloat x) = None"

definition sample_person :: "string \<Rightarrow> node" where
  "sample_person n = URIRef (''http://example.org/stuff/person_'' @ n)"

definition sample_graph :: graph where
  "sample_graph =
     {(sample_person ''1'', foaf_knows, sample_person ''2''),
      (sample_person ''1'', acq_wantsIntro, sample_person ''3''),
      (sample_person ''2'', foaf_knows, sample_person ''3'')}"

definition sample_query :: "graph \<Rightarrow> string \<Rightarrow> (node \<times> node) list" where
  "sample_query g q =
     (if q = query_knows
      then [(sample_person ''1'', sample_person ''2''), (sample_person ''2'', sample_person ''3'')]
      else if q = query_wantsIntro then [(sample_person ''1'', sample_person ''3'')]
      else [(sample_person ''1'', sample_person ''1''), (sample_person ''1'', sample_person ''2'')])"

definition sample_ext :: "real externals" where
  "sample_ext =
     \<lparr>kg_query = sample_query, kg_query3 = (\<lambda>g q. []), csv_reader = csv_reader_rows,
      model_infer = (\<lambda>m. Some [(PyInt 1, PyInt 2, 5 / 10), (PyInt 1, PyInt 3, 25 / 100)]),
      py_int = sample_int, py_float = sample_float\<rparr>"

definition sample_files :: filesystem where
  "sample_files =
     [''acq.ttl'' \<mapsto> Ttl sample_graph,
      ''dat/psl/knows_targets.txt'' \<mapsto>
        Text [CHR ''1'', CHR 0x09, CHR ''2'', CHR 0x0A, CHR ''1'', CHR 0x09, CHR ''3'', CHR 0x0A,
              CHR ''4'', CHR 0x09, CHR ''5'', CHR 0x0A]]"

definition sample_compare :: "real state" where
  "sample_compare =
     (init_state Map.empty)
       \<lparr>df_dat := [(''1'', ''2'', 1), (''1'', ''3'', 0)],
        df := [\<lparr>r_p1 = PyInt 1, r_p2 = PyInt 2, r_truth = 5 / 10, r_diff = None\<rparr>,
               \<lparr>r_p1 = PyInt 1, r_p2 = PyInt 3, r_truth = 25 / 100, r_diff = None\<rparr>]\<rparr>"

definition sample_loaded :: "real state" where
  "sample_loaded = (init_state sample_files)\<lparr>kg_g := sample_graph\<rparr>"

definition quoted_text :: string where
  "quoted_text = [CHR 0x22, CHR ''1'', CHR 0x09, CHR ''2'', CHR 0x22, CHR 0x0A]"

definition quoted_state :: "real state" where
  "quoted_state =
     sample_loaded\<lparr>files := (files sample_loaded)(''dat/psl/knows_targets.txt'' \<mapsto> Text quoted_text)\<rparr>"

definition sample_recipe_ext :: "real externals" where
  "sample_recipe_ext =
     sample_ext\<lparr>kg_query := (\<lambda>g q.
        [(URIRef ''https://www.food.com/recipe/137357'', Literal ''dane dumplings'' []),
         (URIRef ''https://www.food.com/recipe/277824'', Literal ''easy basic crepes'' [])])\<rparr>"


definition sample_recipes :: recipes where
  "sample_recipes =
     \<lparr>files = Map.empty,
      kg_g = {(URIRef ''https://www.food.com/recipe/137357'', wtm ''hasIngredient'', ind ''Butter'')},
      tally = [], printed = []\<rparr>"



section \<open>Properties\<close>

lemmas csv_defs = csv_reader_rows_def csv_reader_py_def file_lines_def process_line_def
  parse_process_char_def start_field_def end_of_record_def parse_add_char_def
  parse_save_field_def parse_reset_def field_limit_def

subsection \<open>The string helpers\<close>

lemma str_replace_absent:
  "old \<noteq> [] \<Longrightarrow> \<not> sublist old s \<Longrightarrow> str_replace s old new = s"
proof (induction s)
  case Nil
  then show ?case by simp
next
  case (Cons c cs)
  from Cons.prems have "\<not> prefix old (c # cs)" and "\<not> sublist old cs"
    by (auto simp: sublist_Cons_right)
  with Cons show ?case by simp
qed

lemma str_replace_leading:
  "old \<noteq> [] \<Longrightarrow> str_replace (old @ s) old new = new @ str_replace s old new"
  by (cases old) simp_all

text \<open>
  Claim C9. For every identifier in which the prefix \<open>http://example.org/stuff/person_\<close>
  does not occur, \<open>get_person_id\<close> applied to the URL built as the targets loop builds it
  (the prefix followed by the identifier) gives the identifier back.
\<close>

theorem get_person_id_roundtrip:
  "\<not> sublist ''http://example.org/stuff/person_'' ident \<Longrightarrow>
   get_person_id (URIRef (''http://example.org/stuff/person_'' @ ident)) = ident"
  unfolding get_person_id_def str_of.simps
  by (subst str_replace_leading) (simp_all add: str_replace_absent)

theorem get_person_id_roundtrip_witness:
  "\<not> sublist ''http://example.org/stuff/person_'' ''21'' \<and>
   get_person_id (URIRef (''http://example.org/stuff/person_'' @ ''21'')) = ''21''"
proof -
  have h: "\<not> sublist ''http://example.org/stuff/person_'' ''21''"
    by (simp add: sublist_Cons_right)
  from h get_person_id_roundtrip [OF h] show ?thesis by simp
qed

subsection \<open>The loops of the acquaintance notebook\<close>

lemma observed_distinct_simps:
  "observed_distinct p [] = []"
  "observed_distinct p ((a, b) # rows) =
     (if get_person_id a \<noteq> get_person_id b
      then [Data_row p OBSERVATIONS [get_person_id a, get_person_id b] None] else []) @
     observed_distinct p rows"
  by (simp_all add: observed_distinct_def)

lemma observed_known_simps:
  "observed_known p tv ts [] = []"
  "observed_known p tv ts ((a, b) # rows) =
     (if (get_person_id a, get_person_id b) \<notin> set ts
      then [Data_row p OBSERVATIONS [get_person_id a, get_person_id b] (Some tv)] else []) @
     observed_known p tv ts rows"
  by (simp_all add: observed_known_def)

lemma observe_distinct_eq:
  "observe_distinct rows s =
   s\<lparr>model := (model s)\<lparr>data := data (model s) @ observed_distinct (predicate s) rows\<rparr>,
     events := events s @ map Ev_add_data_row (observed_distinct (predicate s) rows)\<rparr>"
proof (induction rows arbitrary: s)
  case Nil
  show ?case by (simp add: observed_distinct_simps)
next
  case (Cons row rows)
  show ?case
    by (cases row)
      (simp add: Cons.IH Let_def add_data_row_def log_event_def observed_distinct_simps)
qed

lemma observe_known_eq:
  "observe_known tv rows s =
   s\<lparr>model := (model s)\<lparr>data := data (model s) @ observed_known (predicate s) tv (targets s) rows\<rparr>,
     events := events s @ map Ev_add_data_row (observed_known (predicate s) tv (targets s) rows)\<rparr>"
proof (induction rows arbitrary: s)
  case Nil
  show ?case by (simp add: observed_known_simps)
next
  case (Cons row rows)
  show ?case
    by (cases row)
      (simp add: Cons.IH Let_def add_data_row_def log_event_def observed_known_simps)
qed

lemma target_row_eq:
  "target_row ext [p1, p2] s =
   Inr (s\<lparr>model := (model s)\<lparr>data := data (model s) @ row_data ext (kg_g s) (predicate s) [p1, p2]\<rparr>,
          targets := targets s @ [(p1, p2)],
          rows_list := rows_list s @ row_truth ext (kg_g s) [p1, p2],
          events := events s @ row_events ext (kg_g s) (predicate s) [p1, p2]\<rparr>)"
  by (simp add: Let_def truth_for_def record_target_def add_data_row_def print_def log_event_def)

lemma target_row_ValueError:
  "length row \<noteq> 2 \<Longrightarrow> target_row ext row s = Inl ValueError"
  by (cases "(ext, row, s)" rule: target_row.cases) simp_all

lemma length_two: "length row = 2 \<Longrightarrow> \<exists>p1 p2. row = [p1, p2]"
  by (cases row; cases "tl row") auto

lemma target_rows_eq:
  "target_rows ext rows s =
   (if list_all (\<lambda>row. length row = 2) rows
    then Inr (s\<lparr>model := (model s)\<lparr>data := data (model s) @
                       concat (map (row_data ext (kg_g s) (predicate s)) rows)\<rparr>,
               targets := targets s @ concat (map row_pair rows),
               rows_list := rows_list s @ concat (map (row_truth ext (kg_g s)) rows),
               events := events s @ concat (map (row_events ext (kg_g s) (predicate s)) rows)\<rparr>)
    else Inl ValueError)"
proof (induction rows arbitrary: s)
  case Nil
  show ?case by simp
next
  case (Cons row rows)
  show ?case
  proof (cases "length row = 2")
    case True
    then obtain p1 p2 where row: "row = [p1, p2]"
      using length_two by blast
    show ?thesis
      unfolding row by (simp add: target_row_eq Cons.IH del: target_row.simps)
  next
    case False
    then show ?thesis by (simp add: target_row_ValueError)
  qed
qed

lemma queries_of_append [simp]: "queries_of (xs @ ys) = queries_of xs @ queries_of ys"
  by (induction xs rule: queries_of.induct) simp_all

lemma rows_of_append [simp]: "rows_of (xs @ ys) = rows_of xs @ rows_of ys"
  by (induction xs rule: rows_of.induct) simp_all

lemma of_map_add_data_row [simp]:
  "queries_of (map Ev_add_data_row rs) = []"
  "rows_of (map Ev_add_data_row rs) = rs"
  by (induction rs) simp_all

lemma of_map_print [simp]:
  "queries_of (map Ev_print ls) = []"
  "rows_of (map Ev_print ls) = []"
  by (induction ls) simp_all

lemma of_row_events [simp]:
  "queries_of (row_events ext g p row) = []"
  "rows_of (row_events ext g p row) = row_data ext g p row"
  by (cases "(ext, g, p, row)" rule: row_events.cases; simp split: option.splits)+

lemma of_concat_row_events [simp]:
  "queries_of (concat (map (row_events ext g p) rows)) = []"
  "rows_of (concat (map (row_events ext g p) rows)) = concat (map (row_data ext g p) rows)"
  by (induction rows) simp_all

lemma run_cells_Cons_Inr:
  "run_cells (c # cs) s = Inr s' \<longleftrightarrow> (\<exists>s1. c s = Inr s1 \<and> run_cells cs s1 = Inr s')"
  by (simp split: sum.splits)

lemma fill_diff_Inr:
  "fill_diff ext d rows = Inr rows' \<Longrightarrow>
   list_all2 (\<lambda>row row'. \<exists>a b t. py_int ext (r_p1 row) = Some a \<and> py_int ext (r_p2 row) = Some b \<and>
                d (a, b) = Some t \<and> row' = row\<lparr>r_diff := Some (r_truth row - t)\<rparr>) rows rows'"
proof (induction rows arbitrary: rows')
  case Nil
  then show ?case by simp
next
  case (Cons row rows)
  then show ?case
    by (auto simp: key_of_def split: option.splits sum.splits)
qed

lemma recorded_simps:
  "recorded ext [] key = []"
  "recorded ext ((p1, p2, t) # rows) key =
     (if key_of ext (PyStr p1) (PyStr p2) = Inr key then [t] else []) @ recorded ext rows key"
  by (simp_all add: recorded_def)

lemma fill_dat_val_Inr:
  "fill_dat_val ext rows d = Inr d' \<Longrightarrow>
   d' key = (if recorded ext rows key = [] then d key else Some (last (recorded ext rows key)))"
proof (induction rows arbitrary: d)
  case Nil
  then show ?case by (simp add: recorded_simps)
next
  case (Cons row rows)
  obtain p1 p2 t where row: "row = (p1, p2, t)" by (cases row)
  from Cons.prems obtain k where k: "key_of ext (PyStr p1) (PyStr p2) = Inr k"
    and rest: "fill_dat_val ext rows (d(k \<mapsto> t)) = Inr d'"
    by (auto simp: row split: sum.splits)
  show ?case
    using Cons.IH [OF rest] k by (simp add: row recorded_simps)
qed

lemmas cell_defs = cell1_def cell2_def cell3_def cell4_def cell5_def cell6_def cell7_def
  cell9_def cell10_def cell11_def cell12_def cell13_def cell14_def cell15_def cell16_def
  cell17_def cell18_def

lemma preparation_cells_Inr:
  "run_cells [cell1, cell2, cell3, cell4, cell5, cell6, cell7] (init_state fs) = Inr s \<longleftrightarrow>
   (\<exists>g. fs ''acq.ttl'' = Some (Ttl g) \<and>
     s = \<lparr>files = fs(''tmp.html'' \<mapsto> Html, ''foo.ttl'' \<mapsto> Ttl g), kg_g = g,
          model = \<lparr>model_name = ''simple acquaintances'',
                    predicates = [Predicate ''Neighbors'' True 2, Predicate ''Likes'' True 2,
                                  Predicate ''Knows'' False 2],
                    rules = acquaintance_rules, data = []\<rparr>,
          predicate = ''Knows'', targets = [], rows_list = [], df_dat = [], results = [],
          df = [], dat_val = Map.empty,
          events = Ev_load_ttl ''acq.ttl'' # preparation_events\<rparr>)"
  by (auto simp: init_state_def cell_defs load_ttl_def log_event_def save_ttl_def
      add_predicate_def add_rule_def clear_data_def preparation_events_def acquaintance_rules_def
      split: option.splits file_content.splits)

lemma loading_cells_Inr:
  "run_cells [cell9 ext, cell10 ext, cell11, cell12 ext, cell13 ext] s = Inr s' \<longleftrightarrow>
   (\<exists>f. files s ''dat/psl/knows_targets.txt'' = Some (Text f) \<and>
        list_all (\<lambda>row. length row = 2) (csv_reader ext (CHR 0x09) f) \<and>
        s' = s\<lparr>model := (model s)\<lparr>data := data (model s) @
                    concat (loading_data ext (kg_g s) (csv_reader ext (CHR 0x09) f))\<rparr>,
                predicate := ''Knows'',
                targets := concat (map row_pair (csv_reader ext (CHR 0x09) f)),
                rows_list := concat (map (row_truth ext (kg_g s)) (csv_reader ext (CHR 0x09) f)),
                df_dat := concat (map (row_truth ext (kg_g s)) (csv_reader ext (CHR 0x09) f)),
                events := events s @ loading_events ext (kg_g s) (csv_reader ext (CHR 0x09) f)\<rparr>)"
  by (auto simp: cell_defs run_query_def get_predicate_def log_event_def observe_distinct_eq
      observe_known_eq target_rows_eq loading_data_def loading_events_def Let_def
      split: option.splits file_content.splits)

lemma report_suspects_Inr:
  "report_suspects ext rows s = Inr s' \<Longrightarrow>
   \<exists>keys. list_all2 (\<lambda>row k. key_of ext (r_p1 row) (r_p2 row) = Inr k)
            (filter (\<lambda>row. \<exists>d. r_diff row = Some d \<and> d < - py_float ext ''0.2'') rows) keys \<and>
          s' = s\<lparr>events := events s @ map (\<lambda>(a, b). Ev_print (suspect_line a b)) keys\<rparr>"
proof (induction rows arbitrary: s)
  case Nil
  then show ?case by simp
next
  case (Cons row rows)
  from Cons.prems obtain d where d: "r_diff row = Some d"
    by (auto split: option.splits)
  show ?case
  proof (cases "d < - py_float ext ''0.2''")
    case True
    with Cons.prems d obtain a b where k: "key_of ext (r_p1 row) (r_p2 row) = Inr (a, b)"
      and rest: "report_suspects ext rows (print (suspect_line a b) s) = Inr s'"
      by (auto split: sum.splits)
    from Cons.IH [OF rest] obtain keys where
      keys: "list_all2 (\<lambda>row k. key_of ext (r_p1 row) (r_p2 row) = Inr k)
            (filter (\<lambda>row. \<exists>d. r_diff row = Some d \<and> d < - py_float ext ''0.2'') rows) keys"
      and s': "s' = (print (suspect_line a b) s)\<lparr>events := events (print (suspect_line a b) s) @
                 map (\<lambda>(a, b). Ev_print (suspect_line a b)) keys\<rparr>"
      by blast
    show ?thesis
      by (rule exI [of _ "(a, b) # keys"]) (simp add: d True k keys s' print_def log_event_def)
  next
    case False
    with Cons.prems d have rest: "report_suspects ext rows s = Inr s'"
      by simp
    from Cons.IH [OF rest] show ?thesis
      by (simp add: d False)
  qed
qed

lemma fill_diff_all_Some:
  "fill_diff ext d rows = Inr rows' \<Longrightarrow> list_all (\<lambda>row. r_diff row \<noteq> None) rows'"
  by (induction rows arbitrary: rows') (auto split: option.splits sum.splits)

lemma fill_diff_length:
  "fill_diff ext d rows = Inr rows' \<Longrightarrow> length rows' = length rows"
  by (induction rows arbitrary: rows') (auto split: option.splits sum.splits)

lemma compare_cells_Inr:
  assumes "run_cells [cell16 ext, cell17, cell18 ext] s = Inr s'"
  shows "\<exists>d rows' keys.
           fill_dat_val ext (df_dat s) Map.empty = Inr d \<and>
           fill_diff ext d (df s) = Inr rows' \<and>
           list_all2 (\<lambda>row k. key_of ext (r_p1 row) (r_p2 row) = Inr k)
             (filter (\<lambda>row. \<exists>d. r_diff row = Some d \<and> d < - py_float ext ''0.2'') rows') keys \<and>
           s' = s\<lparr>df := rows', dat_val := d,
                  events := events s @ Ev_hist # map (\<lambda>(a, b). Ev_print (suspect_line a b)) keys\<rparr>"
proof -
  from assms obtain d rows' where d: "fill_dat_val ext (df_dat s) Map.empty = Inr d"
    and rows': "fill_diff ext d (df s) = Inr rows'"
    and rest: "report_suspects ext rows'
                 (s\<lparr>dat_val := d, df := rows', events := events s @ [Ev_hist]\<rparr>) = Inr s'"
    by (auto simp: cell16_def cell17_def cell18_def log_event_def split: sum.splits if_splits)
  from report_suspects_Inr [OF rest] d rows' show ?thesis
    by auto
qed

text \<open>
  Claim C3. When the comparison cells (16 to 18) run to the end: every row of the table of
  results gets as \<open>diff\<close> its inferred probability (the column \<open>truth\<close> of the results)
  minus the value stored in \<open>dat_val\<close> under the key \<open>(int(p1), int(p2))\<close>; \<open>dat_val\<close>
  holds under a key the truth value of the last target row with that key; and the lines
  printed after the histogram are, in order, one \<open>??\<close> line for each row whose \<open>diff\<close>
  is less than \<open>-0.2\<close>, and no other.
\<close>

theorem comparison_diff_and_suspects:
  assumes "run_cells [cell16 ext, cell17, cell18 ext] s = Inr s'"
  shows "list_all2
           (\<lambda>row row'. \<exists>a b t. py_int ext (r_p1 row) = Some a \<and> py_int ext (r_p2 row) = Some b \<and>
              dat_val s' (a, b) = Some t \<and> row' = row\<lparr>r_diff := Some (r_truth row - t)\<rparr>)
           (df s) (df s') \<and>
         (\<forall>key. dat_val s' key =
            (if recorded ext (df_dat s) key = [] then None
             else Some (last (recorded ext (df_dat s) key)))) \<and>
         (\<exists>keys.
            list_all2 (\<lambda>row (a, b). py_int ext (r_p1 row) = Some a \<and> py_int ext (r_p2 row) = Some b)
              (filter (\<lambda>row. \<exists>diff. r_diff row = Some diff \<and> diff < - py_float ext ''0.2'') (df s'))
              keys \<and>
            events s' = events s @ Ev_hist # map (\<lambda>(a, b). Ev_print (suspect_line a b)) keys)"
proof -
  from compare_cells_Inr [OF assms] obtain d rows' keys where
    d: "fill_dat_val ext (df_dat s) Map.empty = Inr d"
    and rows': "fill_diff ext d (df s) = Inr rows'"
    and keys: "list_all2 (\<lambda>row k. key_of ext (r_p1 row) (r_p2 row) = Inr k)
             (filter (\<lambda>row. \<exists>d. r_diff row = Some d \<and> d < - py_float ext ''0.2'') rows') keys"
    and s': "s' = s\<lparr>df := rows', dat_val := d,
                  events := events s @ Ev_hist # map (\<lambda>(a, b). Ev_print (suspect_line a b)) keys\<rparr>"
    by blast
  have 1: "list_all2
           (\<lambda>row row'. \<exists>a b t. py_int ext (r_p1 row) = Some a \<and> py_int ext (r_p2 row) = Some b \<and>
              dat_val s' (a, b) = Some t \<and> row' = row\<lparr>r_diff := Some (r_truth row - t)\<rparr>)
           (df s) (df s')"
    using fill_diff_Inr [OF rows'] by (simp add: s')
  have 2: "dat_val s' key =
            (if recorded ext (df_dat s) key = [] then None
             else Some (last (recorded ext (df_dat s) key)))" for key
    using fill_dat_val_Inr [OF d, of key] by (simp add: s')
  have "list_all2 (\<lambda>row (a, b). py_int ext (r_p1 row) = Some a \<and> py_int ext (r_p2 row) = Some b)
          (filter (\<lambda>row. \<exists>diff. r_diff row = Some diff \<and> diff < - py_float ext ''0.2'') (df s'))
          keys"
    using keys
    by (auto simp: s' key_of_def elim!: list_all2_mono split: option.splits)
  with 1 2 s' show ?thesis
    by auto
qed

theorem comparison_diff_and_suspects_witness:
  "\<exists>s'. run_cells [cell16 sample_ext, cell17, cell18 sample_ext] sample_compare = Inr s' \<and>
        map r_diff (df s') = [Some (- (5 / 10)), Some (25 / 100)] \<and>
        dat_val s' (1, 2) = Some 1 \<and>
        events s' = [Ev_hist, Ev_print ''?? acq:person_1 foaf:knows acq:person_2'']"
proof -
  have run: "run_cells [cell16 sample_ext, cell17, cell18 sample_ext] sample_compare =
      Inr (sample_compare
             \<lparr>df := [\<lparr>r_p1 = PyInt 1, r_p2 = PyInt 2, r_truth = 5 / 10, r_diff = Some (- (5 / 10))\<rparr>,
                     \<lparr>r_p1 = PyInt 1, r_p2 = PyInt 3, r_truth = 25 / 100, r_diff = Some (25 / 100)\<rparr>],
              dat_val := [(1, 2) \<mapsto> 1, (1, 3) \<mapsto> 0],
              events := [Ev_hist, Ev_print ''?? acq:person_1 foaf:knows acq:person_2'']\<rparr>)"
    by (simp add: cell16_def cell17_def cell18_def sample_compare_def init_state_def
        sample_ext_def key_of_def sample_float_def log_event_def print_def suspect_line_def
        str_int_def)
  from comparison_diff_and_suspects [OF run] run show ?thesis
    by (simp add: sample_compare_def init_state_def)
qed

lemma run_cells_append_Inr:
  "run_cells (cs @ cs') s = Inr s' \<longleftrightarrow> (\<exists>s1. run_cells cs s = Inr s1 \<and> run_cells cs' s1 = Inr s')"
  by (induction cs arbitrary: s) (auto split: sum.splits)

lemma infer_cells_Inr:
  "run_cells [cell14 ext, cell15] s = Inr s' \<longleftrightarrow>
   (\<exists>table. model_infer ext (model s) = Some table \<and>
      s' = s\<lparr>predicate := ''KNOWS'', results := table,
             df := map (\<lambda>(p1, p2, t). \<lparr>r_p1 = p1, r_p2 = p2, r_truth = t, r_diff = None\<rparr>) table,
             events := events s @ [Ev_infer]\<rparr>)"
  by (auto simp: cell14_def cell15_def log_event_def split: option.splits)

lemma ex01_7_cells_split:
  "ex01_7_cells ext =
     [cell1, cell2, cell3, cell4, cell5, cell6, cell7] @
     [cell9 ext, cell10 ext, cell11, cell12 ext, cell13 ext] @
     [cell14 ext, cell15] @ [cell16 ext, cell17, cell18 ext]"
  by (simp add: ex01_7_cells_def)

lemma rows_of_preparation_events [simp]:
  "rows_of preparation_events = []" "queries_of preparation_events = []"
  by (simp_all add: preparation_events_def)

lemma rows_of_loading_events:
  "rows_of (loading_events ext g rows) = concat (loading_data ext g rows)"
  by (simp add: loading_events_def loading_data_def)

lemma queries_of_loading_events:
  "queries_of (loading_events ext g rows) =
     [query_neighbors, query_likes, query_knows, query_wantsIntro]"
  by (simp add: loading_events_def)

lemma infer_notin_loading_events: "Ev_infer \<notin> set (loading_events ext g rows)"
proof -
  have "Ev_infer \<notin> set (row_events ext g p row)" for p row
    by (cases "(ext, g, p, row)" rule: row_events.cases) (auto split: option.splits)
  then show ?thesis
    by (auto simp: loading_events_def)
qed

lemma observed_distinct_args:
  "r \<in> set (observed_distinct p rows) \<Longrightarrow>
   \<exists>row \<in> set rows. dr_args r = [get_person_id (fst row), get_person_id (snd row)]"
  by (induction rows) (auto simp: observed_distinct_simps split: if_splits)

lemma observed_known_args:
  "r \<in> set (observed_known p tv ts rows) \<Longrightarrow>
   \<exists>row \<in> set rows. dr_args r = [get_person_id (fst row), get_person_id (snd row)]"
  by (induction rows) (auto simp: observed_known_simps split: if_splits)

lemma row_data_partition:
  "r \<in> set (row_data ext g p row) \<Longrightarrow> dr_partition r \<noteq> OBSERVATIONS"
  by (cases "(ext, g, p, row)" rule: row_data.cases) (auto split: option.splits)

lemma observation_loading_data:
  assumes "r \<in> set (concat (loading_data ext g rows))" and "dr_partition r = OBSERVATIONS"
  shows "\<exists>q \<in> set [query_neighbors, query_likes, query_knows, query_wantsIntro].
           \<exists>row \<in> set (kg_query ext g q).
             dr_args r = [get_person_id (fst row), get_person_id (snd row)]"
proof -
  from assms(1) consider
      "r \<in> set (observed_distinct ''Neighbors'' (kg_query ext g query_neighbors))"
    | "r \<in> set (observed_distinct ''Likes'' (kg_query ext g query_likes))"
    | row where "row \<in> set rows" "r \<in> set (row_data ext g ''Knows'' row)"
    | "r \<in> set (observed_known ''Knows'' (py_float ext ''1.0'') (concat (map row_pair rows))
                    (kg_query ext g query_knows))"
    | "r \<in> set (observed_known ''Knows'' (py_float ext ''0.0'') (concat (map row_pair rows))
                    (kg_query ext g query_wantsIntro))"
    unfolding loading_data_def by auto
  then show ?thesis
  proof cases
    case 1
    from observed_distinct_args [OF 1] show ?thesis by simp
  next
    case 2
    from observed_distinct_args [OF 2] show ?thesis by simp
  next
    case 3
    with row_data_partition assms(2) show ?thesis by blast
  next
    case 4
    from observed_known_args [OF 4] show ?thesis by simp
  next
    case 5
    from observed_known_args [OF 5] show ?thesis by simp
  qed
qed

lemma sample_files_simps:
  "sample_files ''acq.ttl'' = Some (Ttl sample_graph)"
  "sample_files ''dat/psl/knows_targets.txt'' =
     Some (Text [CHR ''1'', CHR 0x09, CHR ''2'', CHR 0x0A, CHR ''1'', CHR 0x09, CHR ''3'', CHR 0x0A,
              CHR ''4'', CHR 0x09, CHR ''5'', CHR 0x0A])"
  by (simp_all add: sample_files_def)

lemma sample_rows:
  "csv_reader sample_ext (CHR 0x09)
     [CHR ''1'', CHR 0x09, CHR ''2'', CHR 0x0A, CHR ''1'', CHR 0x09, CHR ''3'', CHR 0x0A,
      CHR ''4'', CHR 0x09, CHR ''5'', CHR 0x0A] = [[''1'', ''2''], [''1'', ''3''], [''4'', ''5'']]"
  by (simp add: sample_ext_def csv_defs)

lemma sample_run: "\<exists>s. ex01_7 sample_ext sample_files = Inr s"
proof -
  obtain s7 where A: "run_cells [cell1, cell2, cell3, cell4, cell5, cell6, cell7]
      (init_state sample_files) = Inr (s7 :: real state)"
    unfolding preparation_cells_Inr by (simp add: sample_files_simps)
  then have f7: "files s7 ''dat/psl/knows_targets.txt'' = sample_files ''dat/psl/knows_targets.txt''"
    and g7: "kg_g s7 = sample_graph"
    unfolding preparation_cells_Inr by (auto simp: sample_files_simps)
  obtain s13 where B: "run_cells [cell9 sample_ext, cell10 sample_ext, cell11, cell12 sample_ext,
      cell13 sample_ext] s7 = Inr s13"
    unfolding loading_cells_Inr by (simp add: f7 sample_files_simps sample_rows)
  then have "df_dat s13 =
      concat (map (row_truth sample_ext sample_graph) [[''1'', ''2''], [''1'', ''3''], [''4'', ''5'']])"
    unfolding loading_cells_Inr by (auto simp: f7 g7 sample_files_simps sample_rows)
  then have df_dat: "df_dat s13 = [(''1'', ''2'', 1), (''1'', ''3'', 0)]"
    by (simp add: truth_for_def sample_graph_def sample_person_def foaf_knows_def
        acq_wantsIntro_def sample_ext_def sample_float_def)
  obtain s15 where C: "run_cells [cell14 sample_ext, cell15] s13 = Inr s15"
    unfolding infer_cells_Inr by (simp add: sample_ext_def)
  then have s15: "df_dat s15 = df_dat s13"
    "df s15 = [\<lparr>r_p1 = PyInt 1, r_p2 = PyInt 2, r_truth = 5 / 10, r_diff = None\<rparr>,
              \<lparr>r_p1 = PyInt 1, r_p2 = PyInt 3, r_truth = 25 / 100, r_diff = None\<rparr>]"
    unfolding infer_cells_Inr by (auto simp: sample_ext_def)
  obtain s where D: "run_cells [cell16 sample_ext, cell17, cell18 sample_ext] s15 = Inr s"
    by (simp add: cell16_def cell17_def cell18_def s15 df_dat sample_ext_def key_of_def
        sample_float_def log_event_def print_def)
  from A B C D show ?thesis
    unfolding ex01_7_def ex01_7_cells_split run_cells_append_Inr by blast
qed

subsection \<open>The targets, the partitions and the arity of the rows\<close>

lemma row_pair_two:
  "list_all (\<lambda>row. length row = 2) rows \<Longrightarrow>
   concat (map row_pair rows) = map (\<lambda>row. (row ! 0, row ! 1)) rows"
proof (induction rows)
  case Nil
  show ?case by simp
next
  case (Cons row rows)
  from Cons.prems have "length row = 2" by simp
  then obtain p1 p2 where "row = [p1, p2]"
    using length_two by blast
  with Cons show ?case by simp
qed

lemma cell12_Inr:
  "cell12 ext s = Inr s' \<longleftrightarrow>
   (\<exists>f. files s ''dat/psl/knows_targets.txt'' = Some (Text f) \<and>
        list_all (\<lambda>row. length row = 2) (csv_reader ext (CHR 0x09) f) \<and>
        s' = s\<lparr>model := (model s)\<lparr>data := data (model s) @
                    concat (map (row_data ext (kg_g s) ''Knows'') (csv_reader ext (CHR 0x09) f))\<rparr>,
                predicate := ''Knows'',
                targets := concat (map row_pair (csv_reader ext (CHR 0x09) f)),
                rows_list := concat (map (row_truth ext (kg_g s)) (csv_reader ext (CHR 0x09) f)),
                df_dat := concat (map (row_truth ext (kg_g s)) (csv_reader ext (CHR 0x09) f)),
                events := events s @ Ev_open ''dat/psl/knows_targets.txt'' #
                    concat (map (row_events ext (kg_g s) ''Knows'') (csv_reader ext (CHR 0x09) f))\<rparr>)"
  by (auto simp: cell12_def get_predicate_def log_event_def target_rows_eq Let_def
      split: option.splits file_content.splits)

lemma split_on_not_Nil [simp]: "split_on sep cs \<noteq> []"
  by (induction cs) simp_all

lemma split_on_hd_tl [simp]: "hd (split_on sep cs) # tl (split_on sep cs) = split_on sep cs"
  by simp

lemma process_chars_append:
  "process_chars v d (xs @ ys) r =
     (case process_chars v d xs r of None \<Rightarrow> None | Some r' \<Rightarrow> process_chars v d ys r')"
  by (induction xs arbitrary: r) (simp_all split: option.splits)

lemma universal_newlines_set:
  "CHR 0x0D \<notin> set (universal_newlines cs)"
  "set (universal_newlines cs) \<subseteq> insert (CHR 0x0A) (set cs)"
  by (induction cs rule: universal_newlines.induct) auto

lemma readlines_line:
  assumes "line \<in> set (readlines chars)"
  shows "line \<noteq> [] \<and> CHR 0x0A \<notin> set (butlast line) \<and> set line \<subseteq> set chars"
  using assms
proof (induction chars arbitrary: line)
  case Nil
  then show ?case by simp
next
  case (Cons c cs)
  show ?case
  proof (cases "c = CHR 0x0A")
    case True
    with Cons.prems have "line = [c] \<or> line \<in> set (readlines cs)"
      by simp
    with Cons.IH show ?thesis
      by auto
  next
    case False
    show ?thesis
    proof (cases "readlines cs")
      case Nil
      with Cons.prems False show ?thesis
        by simp
    next
      case (Cons l ls)
      with Cons.prems False have "line = c # l \<or> line \<in> set ls"
        by simp
      then show ?thesis
      proof
        assume line: "line = c # l"
        from Cons.IH [of l] Cons have "l \<noteq> [] \<and> CHR 0x0A \<notin> set (butlast l) \<and> set l \<subseteq> set cs"
          by simp
        with line False show ?thesis
          by auto
      next
        assume "line \<in> set ls"
        with Cons.IH [of line] Cons show ?thesis
          by auto
      qed
    qed
  qed
qed


lemma scan_fields:
  assumes "(rd_state r = START_FIELD \<and> rd_field r = []) \<or> (rd_state r = IN_FIELD \<and> rd_field r \<noteq> [])"
    and "CHR 0x0A \<notin> set body" and "CHR 0x0D \<notin> set body"
    and "d \<noteq> CHR 0x0A" and "d \<noteq> CHR 0x0D" and "d \<noteq> CHR 0x22"
    and "\<forall>field \<in> set ((rd_field r @ hd (split_on d body)) # tl (split_on d body)).
           take 1 field \<noteq> [CHR 0x22]"
  shows "case process_chars v d body r of
           None \<Rightarrow>
             (v \<and> CHR 0x00 \<in> set body) \<or>
             (\<exists>field \<in> set ((rd_field r @ hd (split_on d body)) # tl (split_on d body)).
                field_limit < length field)
         | Some r' \<Rightarrow>
             ((rd_state r' = START_FIELD \<and> rd_field r' = []) \<or>
              (rd_state r' = IN_FIELD \<and> rd_field r' \<noteq> [])) \<and>
             rd_fields r' @ [rd_field r'] =
               rd_fields r @ (rd_field r @ hd (split_on d body)) # tl (split_on d body)"
  using assms(1,2,3,7)
proof (induction body arbitrary: r)
  case Nil
  then show ?case by simp
next
  case (Cons c cs)
  note d = assms(4,5,6)
  from Cons.prems(2,3) have c: "c \<noteq> CHR 0x0A" "c \<noteq> CHR 0x0D"
    and cs: "CHR 0x0A \<notin> set cs" "CHR 0x0D \<notin> set cs"
    by auto
  show ?case
  proof (cases "v \<and> c = CHR 0x00")
    case True
    then show ?thesis by simp
  next
    case nul: False
    show ?thesis
    proof (cases "c = d")
      case True
      define r1 where "r1 = (parse_save_field r)\<lparr>rd_state := START_FIELD\<rparr>"
      from Cons.prems(1) d True have step: "parse_process_char d (Some c) r = Some r1"
        by (auto simp: parse_process_char_def start_field_def r1_def parse_save_field_def)
      have r1: "rd_state r1 = START_FIELD" "rd_field r1 = []"
        "rd_fields r1 = rd_fields r @ [rd_field r]"
        by (simp_all add: r1_def parse_save_field_def)
      from Cons.prems(4) True
      have q: "\<forall>field \<in> set ((rd_field r1 @ hd (split_on d cs)) # tl (split_on d cs)).
           take 1 field \<noteq> [CHR 0x22]"
        by (simp add: r1)
      from r1 have inv: "(rd_state r1 = START_FIELD \<and> rd_field r1 = []) \<or>
          (rd_state r1 = IN_FIELD \<and> rd_field r1 \<noteq> [])"
        by simp
      from Cons.IH [OF inv cs q] nul step True show ?thesis
        by (auto simp: r1 split: option.splits)
    next
      case False
      from Cons.prems(4) False have first: "take 1 (rd_field r @ [c]) \<noteq> [CHR 0x22]"
        by (cases "rd_field r") simp_all
      show ?thesis
      proof (cases "field_limit \<le> length (rd_field r)")
        case True
        with Cons.prems(1) have "rd_state r = IN_FIELD"
          by (auto simp: field_limit_def)
        with True c False have "parse_process_char d (Some c) r = None"
          by (simp add: parse_process_char_def parse_add_char_def)
        with nul True False show ?thesis
          by simp
      next
        case short: False
        define r1 where "r1 = r\<lparr>rd_field := rd_field r @ [c], rd_state := IN_FIELD\<rparr>"
        from Cons.prems(1) first have "rd_state r = START_FIELD \<longrightarrow> c \<noteq> CHR 0x22"
          by auto
        with Cons.prems(1) c False short have step: "parse_process_char d (Some c) r = Some r1"
          by (auto simp: parse_process_char_def start_field_def parse_add_char_def r1_def)
        have r1: "rd_state r1 = IN_FIELD" "rd_field r1 = rd_field r @ [c]"
          "rd_fields r1 = rd_fields r"
          by (simp_all add: r1_def)
        from Cons.prems(4) False
        have q: "\<forall>field \<in> set ((rd_field r1 @ hd (split_on d cs)) # tl (split_on d cs)).
           take 1 field \<noteq> [CHR 0x22]"
          by (simp add: r1)
        from r1 have inv: "(rd_state r1 = START_FIELD \<and> rd_field r1 = []) \<or>
            (rd_state r1 = IN_FIELD \<and> rd_field r1 \<noteq> [])"
          by simp
        from Cons.IH [OF inv cs q] nul step False show ?thesis
          by (auto simp: r1 split: option.splits)
      qed
    qed
  qed
qed


lemma end_of_line:
  assumes "(rd_state r = START_FIELD \<and> rd_field r = []) \<or> (rd_state r = IN_FIELD \<and> rd_field r \<noteq> [])"
  shows "parse_process_char d None r =
           Some \<lparr>rd_fields = rd_fields r @ [rd_field r], rd_field = [], rd_state = START_RECORD\<rparr>"
    and "parse_process_char d (Some (CHR 0x0A)) r =
           Some \<lparr>rd_fields = rd_fields r @ [rd_field r], rd_field = [], rd_state = EAT_CRNL\<rparr>"
    and "parse_process_char d None
           \<lparr>rd_fields = fs, rd_field = [], rd_state = EAT_CRNL\<rparr> =
           Some \<lparr>rd_fields = fs, rd_field = [], rd_state = START_RECORD\<rparr>"
  using assms
  by (cases r; auto simp: parse_process_char_def start_field_def end_of_record_def
      parse_save_field_def)+

lemma process_good_line:
  assumes "line = body \<or> line = body @ [CHR 0x0A]"
    and "body \<noteq> []" and "CHR 0x0A \<notin> set body" and "CHR 0x0D \<notin> set body"
    and "d \<noteq> CHR 0x0A" and "d \<noteq> CHR 0x0D" and "d \<noteq> CHR 0x22"
    and "\<forall>field \<in> set (split_on d body). take 1 field \<noteq> [CHR 0x22]"
  shows "case process_line v d line parse_reset of
           None \<Rightarrow>
             (v \<and> CHR 0x00 \<in> set body) \<or>
             (\<exists>field \<in> set (split_on d body). field_limit < length field)
         | Some r' \<Rightarrow>
             r' = \<lparr>rd_fields = split_on d body, rd_field = [], rd_state = START_RECORD\<rparr>"
proof -
  define r0 where "r0 = parse_reset\<lparr>rd_state := START_FIELD\<rparr>"
  have r0: "rd_state r0 = START_FIELD" "rd_field r0 = []" "rd_fields r0 = []"
    by (simp_all add: r0_def parse_reset_def)
  from assms(2) obtain c cs where body: "body = c # cs"
    by (cases body) auto
  with assms(3,4) have c: "c \<noteq> CHR 0x0A" "c \<noteq> CHR 0x0D"
    by auto
  then have "parse_process_char d (Some c) parse_reset = parse_process_char d (Some c) r0"
    by (simp add: parse_process_char_def parse_reset_def r0_def)
  then have start: "process_chars v d body parse_reset = process_chars v d body r0"
    by (simp add: body)
  from r0 have inv: "(rd_state r0 = START_FIELD \<and> rd_field r0 = []) \<or>
      (rd_state r0 = IN_FIELD \<and> rd_field r0 \<noteq> [])"
    by simp
  from assms(8) have q: "\<forall>field \<in> set ((rd_field r0 @ hd (split_on d body)) # tl (split_on d body)).
      take 1 field \<noteq> [CHR 0x22]"
    by (simp add: r0)
  note scan = scan_fields [OF inv assms(3,4,5,6,7) q, of v, unfolded r0, simplified]
  show ?thesis
  proof (cases "process_chars v d body r0")
    case None
    with scan have "(v \<and> CHR 0x00 \<in> set body) \<or>
        (\<exists>field \<in> set (split_on d body). field_limit < length field)"
      by simp
    moreover from None start assms(1) have "process_line v d line parse_reset = None"
      by (auto simp: process_line_def process_chars_append)
    ultimately show ?thesis
      by simp
  next
    case (Some r')
    with scan have inv': "(rd_state r' = START_FIELD \<and> rd_field r' = []) \<or>
        (rd_state r' = IN_FIELD \<and> rd_field r' \<noteq> [])"
      and fields: "rd_fields r' @ [rd_field r'] = split_on d body"
      by simp_all
    from assms(1) show ?thesis
    proof
      assume "line = body"
      with Some start end_of_line(1) [OF inv'] fields show ?thesis
        by (simp add: process_line_def)
    next
      assume "line = body @ [CHR 0x0A]"
      with Some start end_of_line(2) [OF inv'] end_of_line(3) [OF inv'] fields show ?thesis
        by (simp add: process_line_def process_chars_append)
    qed
  qed
qed

lemma file_line_body:
  assumes "line \<in> set (file_lines f)"
  defines "body \<equiv> (if line \<noteq> [] \<and> last line = CHR 0x0A then butlast line else line)"
  shows "line = body \<or> line = body @ [CHR 0x0A]"
    and "CHR 0x0A \<notin> set body" and "CHR 0x0D \<notin> set body"
    and "set body \<subseteq> set line" and "set line \<subseteq> insert (CHR 0x0A) (set f)"
proof -
  from assms(1) readlines_line [of line "universal_newlines f"] universal_newlines_set [of f]
  have line: "line \<noteq> []" "CHR 0x0A \<notin> set (butlast line)" "CHR 0x0D \<notin> set line"
    and sub: "set line \<subseteq> insert (CHR 0x0A) (set f)"
    by (auto simp: file_lines_def)
  from line(1) have split: "butlast line @ [last line] = line"
    by simp
  show "line = body \<or> line = body @ [CHR 0x0A]"
  proof (cases "last line = CHR 0x0A")
    case True
    with split line(1) have "line = body @ [CHR 0x0A]"
      by (simp add: body_def)
    then show ?thesis ..
  next
    case False
    then have "line = body"
      by (simp add: body_def)
    then show ?thesis ..
  qed
  show "CHR 0x0A \<notin> set body"
  proof (cases "last line = CHR 0x0A")
    case True
    with line show ?thesis by (simp add: body_def)
  next
    case False
    have "set (butlast line @ [last line]) = set (butlast line) \<union> {last line}"
      by simp
    then have "set line = set (butlast line) \<union> {last line}"
      unfolding split .
    with False line(2) show ?thesis
      by (auto simp: body_def)
  qed
  show "set body \<subseteq> set line"
    by (auto simp: body_def dest: in_set_butlastD)
  with line(3) show "CHR 0x0D \<notin> set body"
    by blast
  show "set line \<subseteq> insert (CHR 0x0A) (set f)"
    by (rule sub)
qed

lemma reader_rows_lines:
  assumes "\<forall>line \<in> set lines. line \<in> set (file_lines f) \<and> length (tab_fields line) = 2 \<and>
             (\<forall>field \<in> set (tab_fields line). take 1 field \<noteq> [CHR 0x22])"
  shows "case reader_rows v (CHR 0x09) parse_reset lines of
           (rows, raised) \<Rightarrow>
             prefix rows (map tab_fields lines) \<and>
             (\<not> raised \<longrightarrow> rows = map tab_fields lines) \<and>
             (raised \<longrightarrow>
                (v \<and> CHR 0x00 \<in> set f) \<or>
                (\<exists>line \<in> set lines. \<exists>field \<in> set (tab_fields line). field_limit < length field))"
  using assms
proof (induction lines)
  case Nil
  show ?case by (simp add: parse_reset_def)
next
  case (Cons line lines)
  define body where "body = (if line \<noteq> [] \<and> last line = CHR 0x0A then butlast line else line)"
  have tf: "tab_fields line = split_on (CHR 0x09) body"
    by (simp add: tab_fields_def body_def)
  from Cons.prems have line: "line \<in> set (file_lines f)"
    and two: "length (split_on (CHR 0x09) body) = 2"
    and q: "\<forall>field \<in> set (split_on (CHR 0x09) body). take 1 field \<noteq> [CHR 0x22]"
    and rest: "\<forall>line \<in> set lines. line \<in> set (file_lines f) \<and> length (tab_fields line) = 2 \<and>
             (\<forall>field \<in> set (tab_fields line). take 1 field \<noteq> [CHR 0x22])"
    by (simp_all add: tf)
  from two have ne: "body \<noteq> []"
    by auto
  note b = file_line_body [OF line, folded body_def]
  have d: "CHR 0x09 \<noteq> CHR 0x0A" "CHR 0x09 \<noteq> CHR 0x0D" "CHR 0x09 \<noteq> CHR 0x22"
    by simp_all
  note step = process_good_line [OF b(1) ne b(2,3) d q, of v]
  show ?case
  proof (cases "process_line v (CHR 0x09) line parse_reset")
    case None
    with step have "(v \<and> CHR 0x00 \<in> set body) \<or>
        (\<exists>field \<in> set (split_on (CHR 0x09) body). field_limit < length field)"
      by simp
    with b(4,5) have "(v \<and> CHR 0x00 \<in> set f) \<or>
        (\<exists>field \<in> set (tab_fields line). field_limit < length field)"
      unfolding tf by auto
    with None show ?thesis
      by auto
  next
    case (Some r')
    with step have r': "r' = \<lparr>rd_fields = split_on (CHR 0x09) body, rd_field = [],
        rd_state = START_RECORD\<rparr>"
      by simp
    obtain rows raised where rr: "reader_rows v (CHR 0x09) parse_reset lines = (rows, raised)"
      by (cases "reader_rows v (CHR 0x09) parse_reset lines")
    with Cons.IH [OF rest] have ih: "prefix rows (map tab_fields lines)"
      "\<not> raised \<longrightarrow> rows = map tab_fields lines"
      "raised \<longrightarrow>
                (v \<and> CHR 0x00 \<in> set f) \<or>
                (\<exists>line \<in> set lines. \<exists>field \<in> set (tab_fields line). field_limit < length field)"
      by simp_all
    from Some r' rr have "reader_rows v (CHR 0x09) parse_reset (line # lines) =
        (tab_fields line # rows, raised)"
      by (simp add: tf)
    with ih show ?thesis
      by auto
  qed
qed


lemma cell12_two_fields:
  assumes "files s ''dat/psl/knows_targets.txt'' = Some (Text f)"
    and "\<forall>row \<in> set (csv_reader ext (CHR 0x09) f). length row = 2"
  shows "\<exists>s'. cell12 ext s = Inr s' \<and>
           targets s' = map (\<lambda>row. (row ! 0, row ! 1)) (csv_reader ext (CHR 0x09) f) \<and>
           Ev_open ''dat/psl/knows_targets.txt'' \<in> set (events s')"
proof -
  from assms(2) have all2: "list_all (\<lambda>row. length row = 2) (csv_reader ext (CHR 0x09) f)"
    by (simp add: list_all_iff)
  with assms(1) obtain s' where run: "cell12 ext s = Inr s'"
    unfolding cell12_Inr by simp
  with assms(1) all2 have "targets s' = concat (map row_pair (csv_reader ext (CHR 0x09) f))"
    and "Ev_open ''dat/psl/knows_targets.txt'' \<in> set (events s')"
    unfolding cell12_Inr by auto
  with run all2 show ?thesis
    by (simp add: row_pair_two)
qed

lemma quoted_line:
  "map tab_fields (file_lines quoted_text) = [[[CHR 0x22, CHR ''1''], [CHR ''2'', CHR 0x22]]]"
  "csv_reader_py v (CHR 0x09) quoted_text = ([[[CHR ''1'', CHR 0x09, CHR ''2'']]], False)"
  by (simp_all add: quoted_text_def csv_defs tab_fields_def)

text \<open>
  Claim C6, as stated, fails. The file of the one line \<open>"1<TAB>2"\<close> has exactly two
  tab-separated fields on every line, \<open>"1\<close> and \<open>2"\<close>; \<open>csv.reader\<close> reads the line as one
  quoted field holding \<open>1<TAB>2\<close>, and the unpacking \<open>p1, p2 = row\<close> raises \<open>ValueError\<close>.
\<close>

theorem quoted_line_counterexample:
  "files quoted_state ''dat/psl/knows_targets.txt'' = Some (Text quoted_text) \<and>
   map tab_fields (file_lines quoted_text) = [[[CHR 0x22, CHR ''1''], [CHR ''2'', CHR 0x22]]] \<and>
   csv_reader_py True (CHR 0x09) quoted_text = ([[[CHR ''1'', CHR 0x09, CHR ''2'']]], False) \<and>
   csv_reader_py False (CHR 0x09) quoted_text = ([[[CHR ''1'', CHR 0x09, CHR ''2'']]], False) \<and>
   csv_reader sample_ext (CHR 0x09) quoted_text = [[[CHR ''1'', CHR 0x09, CHR ''2'']]] \<and>
   cell12 sample_ext quoted_state = Inl ValueError"
proof -
  have opened: "files quoted_state ''dat/psl/knows_targets.txt'' = Some (Text quoted_text)"
    by (simp add: quoted_state_def)
  have rows: "csv_reader sample_ext (CHR 0x09) quoted_text = [[[CHR ''1'', CHR 0x09, CHR ''2'']]]"
    by (simp add: sample_ext_def csv_reader_rows_def quoted_line)
  have "cell12 sample_ext quoted_state = Inl ValueError"
    by (simp add: cell12_def get_predicate_def log_event_def Let_def opened rows)
  with opened rows quoted_line show ?thesis
    by simp
qed

text \<open>
  Claim C6, amended. Cell 12 opens \<open>dat/psl/knows_targets.txt\<close> and reads it with
  \<open>csv.reader\<close> and the delimiter tab. When every line of the file has exactly two
  tab-separated fields and neither of them begins with a double quote, every row the reader
  yields is the pair of fields of its line, in the order of the lines, so that the unpacking
  \<open>p1, p2 = row\<close> never fails: the loop works through the rows yielded without raising and
  appends one pair to \<open>targets\<close> for each. The reader yields a row for every line unless it
  raises \<open>csv.Error\<close> itself, which it does only at a NUL character (up to Python 3.10) or
  at a field of more than \<open>field_limit\<close> characters; when it does not, the cell runs to its
  end and \<open>targets\<close> holds the pair of fields of every line.
\<close>

theorem targets_file_destructuring:
  assumes "files s ''dat/psl/knows_targets.txt'' = Some (Text f)"
    and "\<forall>line \<in> set (file_lines f).
           length (tab_fields line) = 2 \<and>
           (\<forall>field \<in> set (tab_fields line). take 1 field \<noteq> [CHR 0x22])"
  shows "\<exists>rows raised.
     csv_reader_py nul_error (CHR 0x09) f = (rows, raised) \<and>
     prefix rows (map tab_fields (file_lines f)) \<and>
     (\<forall>row \<in> set rows. length row = 2) \<and>
     (\<forall>s1. \<exists>s2. target_rows ext rows s1 = Inr s2 \<and>
        targets s2 = targets s1 @ map (\<lambda>row. (row ! 0, row ! 1)) rows) \<and>
     (raised \<longrightarrow>
        (nul_error \<and> CHR 0x00 \<in> set f) \<or>
        (\<exists>line \<in> set (file_lines f). \<exists>field \<in> set (tab_fields line).
           field_limit < length field)) \<and>
     (\<not> raised \<longrightarrow> rows = map tab_fields (file_lines f)) \<and>
     (\<not> raised \<and> csv_reader ext (CHR 0x09) f = rows \<longrightarrow>
        (\<exists>s'. cell12 ext s = Inr s' \<and>
           targets s' =
             map (\<lambda>line. (tab_fields line ! 0, tab_fields line ! 1)) (file_lines f) \<and>
           Ev_open ''dat/psl/knows_targets.txt'' \<in> set (events s')))"
proof -
  obtain rows raised where rr: "csv_reader_py nul_error (CHR 0x09) f = (rows, raised)"
    by (cases "csv_reader_py nul_error (CHR 0x09) f")
  from assms(2) have "\<forall>line \<in> set (file_lines f). line \<in> set (file_lines f) \<and>
      length (tab_fields line) = 2 \<and> (\<forall>field \<in> set (tab_fields line). take 1 field \<noteq> [CHR 0x22])"
    by simp
  from reader_rows_lines [OF this, of nul_error] rr
  have p: "prefix rows (map tab_fields (file_lines f))"
    and all: "\<not> raised \<longrightarrow> rows = map tab_fields (file_lines f)"
    and err: "raised \<longrightarrow> (nul_error \<and> CHR 0x00 \<in> set f) \<or>
        (\<exists>line \<in> set (file_lines f). \<exists>field \<in> set (tab_fields line). field_limit < length field)"
    by (simp_all add: csv_reader_py_def)
  from p have "set rows \<subseteq> set (map tab_fields (file_lines f))"
    by (rule set_mono_prefix)
  with assms(2) have two: "\<forall>row \<in> set rows. length row = 2"
    by auto
  then have all2: "list_all (\<lambda>row. length row = 2) rows"
    by (simp add: list_all_iff)
  have loop: "\<exists>s2. target_rows ext rows s1 = Inr s2 \<and>
        targets s2 = targets s1 @ map (\<lambda>row. (row ! 0, row ! 1)) rows" for s1
    by (simp add: target_rows_eq all2 row_pair_two)
  have cell: "\<exists>s'. cell12 ext s = Inr s' \<and>
           targets s' =
             map (\<lambda>line. (tab_fields line ! 0, tab_fields line ! 1)) (file_lines f) \<and>
           Ev_open ''dat/psl/knows_targets.txt'' \<in> set (events s')"
    if "\<not> raised" and ext: "csv_reader ext (CHR 0x09) f = rows"
  proof -
    from that all have rows: "csv_reader ext (CHR 0x09) f = map tab_fields (file_lines f)"
      by simp
    from two ext have "\<forall>row \<in> set (csv_reader ext (CHR 0x09) f). length row = 2"
      by simp
    from cell12_two_fields [OF assms(1) this] show ?thesis
      by (simp add: rows comp_def)
  qed
  show ?thesis
    apply (rule exI [of _ rows])
    apply (rule exI [of _ raised])
    using rr p two loop err all cell by blast
qed

theorem targets_file_destructuring_witness:
  "files sample_loaded ''dat/psl/knows_targets.txt'' =
     Some (Text [CHR ''1'', CHR 0x09, CHR ''2'', CHR 0x0A, CHR ''1'', CHR 0x09, CHR ''3'', CHR 0x0A,
                 CHR ''4'', CHR 0x09, CHR ''5'', CHR 0x0A]) \<and>
   map tab_fields
     (file_lines [CHR ''1'', CHR 0x09, CHR ''2'', CHR 0x0A, CHR ''1'', CHR 0x09, CHR ''3'', CHR 0x0A,
                  CHR ''4'', CHR 0x09, CHR ''5'', CHR 0x0A]) =
     [[''1'', ''2''], [''1'', ''3''], [''4'', ''5'']] \<and>
   csv_reader_py True (CHR 0x09)
     [CHR ''1'', CHR 0x09, CHR ''2'', CHR 0x0A, CHR ''1'', CHR 0x09, CHR ''3'', CHR 0x0A,
      CHR ''4'', CHR 0x09, CHR ''5'', CHR 0x0A] =
     ([[''1'', ''2''], [''1'', ''3''], [''4'', ''5'']], False) \<and>
   (\<exists>s'. cell12 sample_ext sample_loaded = Inr s' \<and>
         targets s' = [(''1'', ''2''), (''1'', ''3''), (''4'', ''5'')])"
proof -
  define f where "f = [CHR ''1'', CHR 0x09, CHR ''2'', CHR 0x0A, CHR ''1'', CHR 0x09, CHR ''3'', CHR 0x0A,
                 CHR ''4'', CHR 0x09, CHR ''5'', CHR 0x0A]"
  have opened: "files sample_loaded ''dat/psl/knows_targets.txt'' = Some (Text f)"
    by (simp add: sample_loaded_def init_state_def sample_files_simps f_def)
  have lines: "file_lines f =
      [[CHR ''1'', CHR 0x09, CHR ''2'', CHR 0x0A], [CHR ''1'', CHR 0x09, CHR ''3'', CHR 0x0A],
       [CHR ''4'', CHR 0x09, CHR ''5'', CHR 0x0A]]"
    by (simp add: f_def file_lines_def)
  have fields: "map tab_fields (file_lines f) = [[''1'', ''2''], [''1'', ''3''], [''4'', ''5'']]"
    by (simp add: lines tab_fields_def)
  have good: "\<forall>line \<in> set (file_lines f).
           length (tab_fields line) = 2 \<and>
           (\<forall>field \<in> set (tab_fields line). take 1 field \<noteq> [CHR 0x22])"
    by (simp add: lines tab_fields_def)
  have py: "csv_reader_py True (CHR 0x09) f = ([[''1'', ''2''], [''1'', ''3''], [''4'', ''5'']], False)"
    by (simp add: f_def csv_defs)
  have ext: "csv_reader sample_ext (CHR 0x09) f = [[''1'', ''2''], [''1'', ''3''], [''4'', ''5'']]"
    by (simp add: sample_ext_def csv_reader_rows_def py)
  from targets_file_destructuring [OF opened good, of True sample_ext] py ext
  obtain s' where "cell12 sample_ext sample_loaded = Inr s'"
    and "targets s' = map (\<lambda>line. (tab_fields line ! 0, tab_fields line ! 1)) (file_lines f)"
    by auto
  then have "\<exists>s'. cell12 sample_ext sample_loaded = Inr s' \<and>
         targets s' = [(''1'', ''2''), (''1'', ''3''), (''4'', ''5'')]"
    by (simp add: lines tab_fields_def)
  with opened fields py show ?thesis
    unfolding f_def by simp
qed

lemma row_data_args:
  "r \<in> set (row_data ext g p row) \<Longrightarrow>
   \<exists>p1 p2 t. row = [p1, p2] \<and> truth_for ext g p1 p2 = Some t \<and> dr_predicate r = p \<and>
      dr_args r = [p1, p2] \<and>
      (r = Data_row p TRUTH [p1, p2] (Some t) \<or> r = Data_row p TARGETS [p1, p2] None)"
proof (cases "(ext, g, p, row)" rule: row_data.cases)
  case (1 ext' g' p' p1 p2)
  assume r: "r \<in> set (row_data ext g p row)"
  from 1 have row: "row = [p1, p2]" by simp
  show ?thesis
  proof (cases "truth_for ext g p1 p2")
    case None
    with r row show ?thesis by simp
  next
    case (Some t)
    with r row show ?thesis by auto
  qed
qed simp_all

lemma row_truth_args:
  "(p1, p2, t) \<in> set (row_truth ext g row) \<Longrightarrow> row = [p1, p2] \<and> truth_for ext g p1 p2 = Some t"
  by (cases "(ext, g, row)" rule: row_truth.cases) (auto split: option.splits)

lemma truth_for_values:
  "truth_for ext g p1 p2 = Some t \<Longrightarrow> t = py_float ext ''1.0'' \<or> t = py_float ext ''0.0''"
  by (auto simp: truth_for_def split: if_splits)

text \<open>
  Claim C2. For a row \<open>(p1, p2)\<close> of the targets file with neither
  \<open>(person_p1, foaf:knows, person_p2)\<close> nor \<open>(person_p1, acq:wantsIntro, person_p2)\<close> in the
  graph: the iteration does not raise, it records the pair in \<open>targets\<close>, prints
  \<open>UNKNOWN p1 p2\<close> and changes nothing else; and when the whole cell runs to its end, that
  line is among those printed, no row with the arguments \<open>[p1, p2]\<close> has been added to the
  model, and no entry for the pair is in \<open>rows_list\<close> or in the frame built from it.
\<close>

theorem unknown_relation_printed:
  assumes "(URIRef (''http://example.org/stuff/person_'' @ p1), foaf_knows,
            URIRef (''http://example.org/stuff/person_'' @ p2)) \<notin> kg_g s"
    and "(URIRef (''http://example.org/stuff/person_'' @ p1), acq_wantsIntro,
          URIRef (''http://example.org/stuff/person_'' @ p2)) \<notin> kg_g s"
  shows "target_row ext [p1, p2] s =
           Inr (s\<lparr>targets := targets s @ [(p1, p2)],
                  events := events s @ [Ev_print (''UNKNOWN '' @ p1 @ '' '' @ p2)]\<rparr>) \<and>
         (\<forall>s' f. cell12 ext s = Inr s' \<and>
                 files s ''dat/psl/knows_targets.txt'' = Some (Text f) \<and>
                 [p1, p2] \<in> set (csv_reader ext (CHR 0x09) f) \<longrightarrow>
            (\<exists>before after.
               events s' = events s @ before @ Ev_print (''UNKNOWN '' @ p1 @ '' '' @ p2) # after) \<and>
            (\<exists>new. data (model s') = data (model s) @ new \<and>
                   (\<forall>r \<in> set new. dr_args r \<noteq> [p1, p2])) \<and>
            (\<forall>t. (p1, p2, t) \<notin> set (rows_list s')) \<and>
            (\<forall>t. (p1, p2, t) \<notin> set (df_dat s')))"
proof -
  from assms have unknown: "truth_for ext (kg_g s) p1 p2 = None"
    by (simp add: truth_for_def)
  then have row: "target_row ext [p1, p2] s =
           Inr (s\<lparr>targets := targets s @ [(p1, p2)],
                  events := events s @ [Ev_print (''UNKNOWN '' @ p1 @ '' '' @ p2)]\<rparr>)"
    by (simp add: target_row_eq del: target_row.simps)
  have cell: "(\<exists>before after.
               events s' = events s @ before @ Ev_print (''UNKNOWN '' @ p1 @ '' '' @ p2) # after) \<and>
            (\<exists>new. data (model s') = data (model s) @ new \<and>
                   (\<forall>r \<in> set new. dr_args r \<noteq> [p1, p2])) \<and>
            (\<forall>t. (p1, p2, t) \<notin> set (rows_list s')) \<and>
            (\<forall>t. (p1, p2, t) \<notin> set (df_dat s'))"
    if run: "cell12 ext s = Inr s'"
      and opened: "files s ''dat/psl/knows_targets.txt'' = Some (Text f)"
      and mem: "[p1, p2] \<in> set (csv_reader ext (CHR 0x09) f)" for s' f
  proof -
    define rows where "rows = csv_reader ext (CHR 0x09) f"
    from run opened have
      ev: "events s' = events s @ Ev_open ''dat/psl/knows_targets.txt'' #
             concat (map (row_events ext (kg_g s) ''Knows'') rows)"
      and da: "data (model s') = data (model s) @ concat (map (row_data ext (kg_g s) ''Knows'') rows)"
      and rl: "rows_list s' = concat (map (row_truth ext (kg_g s)) rows)"
      and dd: "df_dat s' = concat (map (row_truth ext (kg_g s)) rows)"
      unfolding cell12_Inr rows_def by auto
    from mem obtain xs ys where split: "rows = xs @ [p1, p2] # ys"
      unfolding rows_def by (auto simp: in_set_conv_decomp)
    have 1: "\<exists>before after.
               events s' = events s @ before @ Ev_print (''UNKNOWN '' @ p1 @ '' '' @ p2) # after"
      unfolding ev split using unknown
      by (intro exI [of _ "Ev_open ''dat/psl/knows_targets.txt'' #
              concat (map (row_events ext (kg_g s) ''Knows'') xs)"]
            exI [of _ "concat (map (row_events ext (kg_g s) ''Knows'') ys)"]) simp
    have 2: "\<forall>r \<in> set (concat (map (row_data ext (kg_g s) ''Knows'') rows)). dr_args r \<noteq> [p1, p2]"
      using unknown by (auto dest!: row_data_args)
    have 3: "(p1, p2, t) \<notin> set (concat (map (row_truth ext (kg_g s)) rows))" for t
      using unknown by (auto dest!: row_truth_args)
    from 1 2 3 da show ?thesis
      by (auto simp: rl dd)
  qed
  from row cell show ?thesis
    by blast
qed

theorem unknown_relation_printed_witness:
  "(URIRef (''http://example.org/stuff/person_'' @ ''4''), foaf_knows,
    URIRef (''http://example.org/stuff/person_'' @ ''5'')) \<notin> kg_g sample_loaded \<and>
   (URIRef (''http://example.org/stuff/person_'' @ ''4''), acq_wantsIntro,
    URIRef (''http://example.org/stuff/person_'' @ ''5'')) \<notin> kg_g sample_loaded \<and>
   target_row sample_ext [''4'', ''5''] sample_loaded =
     Inr (sample_loaded\<lparr>targets := [(''4'', ''5'')], events := [Ev_print ''UNKNOWN 4 5'']\<rparr>) \<and>
   (\<exists>s'. cell12 sample_ext sample_loaded = Inr s' \<and>
      rows_list s' = [(''1'', ''2'', 1), (''1'', ''3'', 0)] \<and>
      (\<exists>before after. events s' = before @ Ev_print ''UNKNOWN 4 5'' # after) \<and>
      (\<forall>t. (''4'', ''5'', t) \<notin> set (rows_list s')))"
proof -
  have nk: "(URIRef (''http://example.org/stuff/person_'' @ ''4''), foaf_knows,
    URIRef (''http://example.org/stuff/person_'' @ ''5'')) \<notin> kg_g sample_loaded"
    by (simp add: sample_loaded_def sample_graph_def sample_person_def foaf_knows_def
        acq_wantsIntro_def)
  have nw: "(URIRef (''http://example.org/stuff/person_'' @ ''4''), acq_wantsIntro,
    URIRef (''http://example.org/stuff/person_'' @ ''5'')) \<notin> kg_g sample_loaded"
    by (simp add: sample_loaded_def sample_graph_def sample_person_def foaf_knows_def
        acq_wantsIntro_def)
  have opened: "files sample_loaded ''dat/psl/knows_targets.txt'' =
     Some (Text [CHR ''1'', CHR 0x09, CHR ''2'', CHR 0x0A, CHR ''1'', CHR 0x09, CHR ''3'', CHR 0x0A,
                 CHR ''4'', CHR 0x09, CHR ''5'', CHR 0x0A])"
    by (simp add: sample_loaded_def init_state_def sample_files_simps)
  have g: "kg_g sample_loaded = sample_graph"
    by (simp add: sample_loaded_def)
  obtain s' where run: "cell12 sample_ext sample_loaded = Inr s'"
    unfolding cell12_Inr by (simp add: opened sample_rows)
  then have "rows_list s' =
      concat (map (row_truth sample_ext sample_graph) [[''1'', ''2''], [''1'', ''3''], [''4'', ''5'']])"
    unfolding cell12_Inr by (auto simp: opened sample_rows g)
  then have rows_list: "rows_list s' = [(''1'', ''2'', 1), (''1'', ''3'', 0)]"
    by (simp add: truth_for_def sample_graph_def sample_person_def foaf_knows_def
        acq_wantsIntro_def sample_ext_def sample_float_def)
  have mem: "[''4'', ''5''] \<in> set (csv_reader sample_ext (CHR 0x09)
       [CHR ''1'', CHR 0x09, CHR ''2'', CHR 0x0A, CHR ''1'', CHR 0x09, CHR ''3'', CHR 0x0A,
        CHR ''4'', CHR 0x09, CHR ''5'', CHR 0x0A])"
    by (simp add: sample_rows)
  have empty: "events sample_loaded = []" "targets sample_loaded = []"
    by (simp_all add: sample_loaded_def init_state_def)
  from unknown_relation_printed [OF nk nw, of sample_ext] run opened mem nk nw rows_list empty
  show ?thesis
    by (auto simp del: target_row.simps)
qed

text \<open>
  Claim C8. An iteration of the targets loop never raises on a row of two fields, and adds to
  the model either nothing, or one row to \<open>TRUTH\<close> with the truth value \<open>1.0\<close> or \<open>0.0\<close>
  followed by one row to \<open>TARGETS\<close>, both for the pair read: the pair goes to \<open>TRUTH\<close>
  exactly when it goes to \<open>TARGETS\<close>. Cell 13 leaves \<open>targets\<close> as it is and adds only
  rows of the partition \<open>OBSERVATIONS\<close> of \<open>Knows\<close> whose pair of arguments is not in
  \<open>targets\<close>.
\<close>

theorem knows_partitions:
  "(\<exists>s' new. target_row ext [p1, p2] s = Inr s' \<and> data (model s') = data (model s) @ new \<and>
      (new = [] \<or>
       (\<exists>t. (t = py_float ext ''1.0'' \<or> t = py_float ext ''0.0'') \<and>
            new = [Data_row (predicate s) TRUTH [p1, p2] (Some t),
                   Data_row (predicate s) TARGETS [p1, p2] None])) \<and>
      ((\<exists>tv. Data_row (predicate s) TRUTH [p1, p2] tv \<in> set new) \<longleftrightarrow>
       (\<exists>tv. Data_row (predicate s) TARGETS [p1, p2] tv \<in> set new))) \<and>
   (\<exists>s' new. cell13 ext s = Inr s' \<and> targets s' = targets s \<and>
      data (model s') = data (model s) @ new \<and>
      list_all (\<lambda>r. dr_predicate r = ''Knows'' \<and> dr_partition r = OBSERVATIONS \<and>
                  (\<exists>a b. dr_args r = [a, b] \<and> (a, b) \<notin> set (targets s))) new)"
proof -
  have known: "list_all (\<lambda>r. dr_predicate r = p \<and> dr_partition r = OBSERVATIONS \<and>
                  (\<exists>a b. dr_args r = [a, b] \<and> (a, b) \<notin> set ts)) (observed_known p tv ts rows)"
    for p ts rows and tv :: 'a
    by (induction rows) (auto simp: observed_known_simps)
  have 1: "\<exists>s' new. target_row ext [p1, p2] s = Inr s' \<and> data (model s') = data (model s) @ new \<and>
      (new = [] \<or>
       (\<exists>t. (t = py_float ext ''1.0'' \<or> t = py_float ext ''0.0'') \<and>
            new = [Data_row (predicate s) TRUTH [p1, p2] (Some t),
                   Data_row (predicate s) TARGETS [p1, p2] None])) \<and>
      ((\<exists>tv. Data_row (predicate s) TRUTH [p1, p2] tv \<in> set new) \<longleftrightarrow>
       (\<exists>tv. Data_row (predicate s) TARGETS [p1, p2] tv \<in> set new))"
  proof (cases "truth_for ext (kg_g s) p1 p2")
    case None
    then show ?thesis
      by (simp add: target_row_eq del: target_row.simps)
  next
    case (Some t)
    with truth_for_values [OF Some] show ?thesis
      by (simp add: target_row_eq del: target_row.simps)
  qed
  have 2: "\<exists>s' new. cell13 ext s = Inr s' \<and> targets s' = targets s \<and>
      data (model s') = data (model s) @ new \<and>
      list_all (\<lambda>r. dr_predicate r = ''Knows'' \<and> dr_partition r = OBSERVATIONS \<and>
                  (\<exists>a b. dr_args r = [a, b] \<and> (a, b) \<notin> set (targets s))) new"
    using known [of "''Knows''" "targets s"]
    by (simp add: cell13_def run_query_def get_predicate_def log_event_def observe_known_eq)
  from 1 2 show ?thesis
    by blast
qed

lemma get_person_id_sample:
  "get_person_id (sample_person ''1'') = ''1''"
  "get_person_id (sample_person ''2'') = ''2''"
  "get_person_id (sample_person ''3'') = ''3''"
  by (simp_all add: get_person_id_def sample_person_def)

theorem knows_partitions_witness:
  "(\<exists>s'. target_row sample_ext [''1'', ''2''] sample_loaded = Inr s' \<and>
      data (model s') =
        [Data_row [] TRUTH [''1'', ''2''] (Some 1), Data_row [] TARGETS [''1'', ''2''] None]) \<and>
   (\<exists>s'. cell13 sample_ext (sample_loaded\<lparr>targets := [(''1'', ''2'')]\<rparr>) = Inr s' \<and>
      data (model s') =
        [Data_row ''Knows'' OBSERVATIONS [''2'', ''3''] (Some 1),
         Data_row ''Knows'' OBSERVATIONS [''1'', ''3''] (Some 0)])"
proof -
  have t: "truth_for sample_ext (kg_g sample_loaded) ''1'' ''2'' = Some 1"
    by (simp add: truth_for_def sample_loaded_def sample_graph_def sample_person_def
        foaf_knows_def acq_wantsIntro_def sample_ext_def sample_float_def)
  have e: "data (model sample_loaded) = []" "predicate sample_loaded = []"
    by (simp_all add: sample_loaded_def init_state_def)
  have 1: "\<exists>s'. target_row sample_ext [''1'', ''2''] sample_loaded = Inr s' \<and>
      data (model s') =
        [Data_row [] TRUTH [''1'', ''2''] (Some 1), Data_row [] TARGETS [''1'', ''2''] None]"
    using knows_partitions [of sample_ext "''1''" "''2''" sample_loaded] t e
    by (auto simp: target_row_eq simp del: target_row.simps)
  have 2: "\<exists>s'. cell13 sample_ext (sample_loaded\<lparr>targets := [(''1'', ''2'')]\<rparr>) = Inr s' \<and>
      data (model s') =
        [Data_row ''Knows'' OBSERVATIONS [''2'', ''3''] (Some 1),
         Data_row ''Knows'' OBSERVATIONS [''1'', ''3''] (Some 0)]"
    by (simp add: cell13_def run_query_def get_predicate_def log_event_def observe_known_eq
        observed_known_simps sample_ext_def sample_query_def get_person_id_sample e
        sample_float_def query_knows_def query_wantsIntro_def)
  from 1 2 show ?thesis
    by blast
qed

lemma run_cells_invariant:
  assumes "\<And>c s s'. c \<in> set cs \<Longrightarrow> I s \<Longrightarrow> c s = Inr s' \<Longrightarrow> I s'"
    and "I s" and "run_cells cs s = Inr s'"
  shows "I s'"
  using assms
proof (induction cs arbitrary: s)
  case Nil
  then show ?case by simp
next
  case (Cons c cs)
  from Cons.prems(3) obtain s1 where c: "c s = Inr s1" and rest: "run_cells cs s1 = Inr s'"
    by (auto split: sum.splits)
  from Cons.prems(1) [of c s s1] Cons.prems(2) c have s1: "I s1"
    by simp
  have step: "I s'" if "c' \<in> set cs" "I s" "c' s = Inr s'" for c' s s'
    using Cons.prems(1) [of c' s s'] that by simp
  from Cons.IH [OF step s1 rest] show ?case by simp
qed

lemma fold_clear_data:
  "events (fold (\<lambda>p. clear_data (pred_name p)) ps s) =
     events s @ map (\<lambda>p. Ev_clear_data (pred_name p)) ps \<and>
   set (data (model (fold (\<lambda>p. clear_data (pred_name p)) ps s))) \<subseteq> set (data (model s)) \<and>
   predicates (model (fold (\<lambda>p. clear_data (pred_name p)) ps s)) = predicates (model s)"
proof (induction ps arbitrary: s)
  case Nil
  show ?case by simp
next
  case (Cons p ps)
  have "set (data (model (clear_data (pred_name p) s))) \<subseteq> set (data (model s))"
    by (auto simp: clear_data_def log_event_def)
  with Cons [of "clear_data (pred_name p) s"] show ?case
    by (auto simp: clear_data_def log_event_def)
qed

lemma rows_of_map_clear [simp]: "rows_of (map (\<lambda>p. Ev_clear_data (pred_name p)) ps) = []"
  by (induction ps) simp_all

lemma observed_distinct_rows:
  "r \<in> set (observed_distinct p rows) \<Longrightarrow> length (dr_args r) = 2 \<and> dr_predicate r = p"
  by (induction rows) (auto simp: observed_distinct_simps split: if_splits)

lemma observed_known_rows:
  "r \<in> set (observed_known p tv ts rows) \<Longrightarrow> length (dr_args r) = 2 \<and> dr_predicate r = p"
  by (induction rows) (auto simp: observed_known_simps split: if_splits)

lemma adds_cell1:
  assumes "cell1 s = Inr s'"
  shows "\<exists>new. rows_of (events s') = rows_of (events s) @ new \<and>
           set (data (model s')) \<subseteq> set (data (model s)) \<union> set new \<and>
           (\<forall>r \<in> set new. length (dr_args r) = 2 \<and>
              dr_predicate r \<in> {''Neighbors'', ''Likes'', ''Knows''})"
proof -
  from assms have "rows_of (events s') = rows_of (events s) @ []"
    and "set (data (model s')) \<subseteq> set (data (model s)) \<union> set []"
    by (auto simp: cell1_def log_event_def split: sum.splits)
  then show ?thesis by (intro exI [of _ "[]"]) simp
qed

lemma adds_cell2:
  assumes "cell2 s = Inr s'"
  shows "\<exists>new. rows_of (events s') = rows_of (events s) @ new \<and>
           set (data (model s')) \<subseteq> set (data (model s)) \<union> set new \<and>
           (\<forall>r \<in> set new. length (dr_args r) = 2 \<and>
              dr_predicate r \<in> {''Neighbors'', ''Likes'', ''Knows''})"
proof -
  from assms have "rows_of (events s') = rows_of (events s) @ []"
    and "set (data (model s')) \<subseteq> set (data (model s)) \<union> set []"
    by (auto simp: cell2_def log_event_def)
  then show ?thesis by (intro exI [of _ "[]"]) simp
qed

lemma adds_cell3:
  assumes "cell3 s = Inr s'"
  shows "\<exists>new. rows_of (events s') = rows_of (events s) @ new \<and>
           set (data (model s')) \<subseteq> set (data (model s)) \<union> set new \<and>
           (\<forall>r \<in> set new. length (dr_args r) = 2 \<and>
              dr_predicate r \<in> {''Neighbors'', ''Likes'', ''Knows''})"
proof -
  from assms have "rows_of (events s') = rows_of (events s) @ []"
    and "set (data (model s')) \<subseteq> set (data (model s)) \<union> set []"
    by (auto simp: cell3_def log_event_def)
  then show ?thesis by (intro exI [of _ "[]"]) simp
qed

lemma adds_cell4:
  assumes "cell4 s = Inr s'"
  shows "\<exists>new. rows_of (events s') = rows_of (events s) @ new \<and>
           set (data (model s')) \<subseteq> set (data (model s)) \<union> set new \<and>
           (\<forall>r \<in> set new. length (dr_args r) = 2 \<and>
              dr_predicate r \<in> {''Neighbors'', ''Likes'', ''Knows''})"
proof -
  from assms have "rows_of (events s') = rows_of (events s) @ []"
    and "set (data (model s')) \<subseteq> set (data (model s)) \<union> set []"
    by (auto simp: cell4_def add_predicate_def log_event_def)
  then show ?thesis by (intro exI [of _ "[]"]) simp
qed

lemma adds_cell5:
  assumes "cell5 s = Inr s'"
  shows "\<exists>new. rows_of (events s') = rows_of (events s) @ new \<and>
           set (data (model s')) \<subseteq> set (data (model s)) \<union> set new \<and>
           (\<forall>r \<in> set new. length (dr_args r) = 2 \<and>
              dr_predicate r \<in> {''Neighbors'', ''Likes'', ''Knows''})"
proof -
  from assms have "rows_of (events s') = rows_of (events s) @ []"
    and "set (data (model s')) \<subseteq> set (data (model s)) \<union> set []"
    by (auto simp: cell5_def add_rule_def log_event_def)
  then show ?thesis by (intro exI [of _ "[]"]) simp
qed

lemma adds_cell6:
  assumes "cell6 s = Inr s'"
  shows "\<exists>new. rows_of (events s') = rows_of (events s) @ new \<and>
           set (data (model s')) \<subseteq> set (data (model s)) \<union> set new \<and>
           (\<forall>r \<in> set new. length (dr_args r) = 2 \<and>
              dr_predicate r \<in> {''Neighbors'', ''Likes'', ''Knows''})"
proof -
  from assms have "rows_of (events s') = rows_of (events s) @ []"
    and "set (data (model s')) \<subseteq> set (data (model s)) \<union> set []"
    by (auto simp: cell6_def add_rule_def log_event_def)
  then show ?thesis by (intro exI [of _ "[]"]) simp
qed

lemma adds_cell11:
  assumes "cell11 s = Inr s'"
  shows "\<exists>new. rows_of (events s') = rows_of (events s) @ new \<and>
           set (data (model s')) \<subseteq> set (data (model s)) \<union> set new \<and>
           (\<forall>r \<in> set new. length (dr_args r) = 2 \<and>
              dr_predicate r \<in> {''Neighbors'', ''Likes'', ''Knows''})"
proof -
  from assms have "rows_of (events s') = rows_of (events s) @ []"
    and "set (data (model s')) \<subseteq> set (data (model s)) \<union> set []"
    by (auto simp: cell11_def get_predicate_def)
  then show ?thesis by (intro exI [of _ "[]"]) simp
qed

lemma adds_cell14:
  assumes "cell14 ext s = Inr s'"
  shows "\<exists>new. rows_of (events s') = rows_of (events s) @ new \<and>
           set (data (model s')) \<subseteq> set (data (model s)) \<union> set new \<and>
           (\<forall>r \<in> set new. length (dr_args r) = 2 \<and>
              dr_predicate r \<in> {''Neighbors'', ''Likes'', ''Knows''})"
proof -
  from assms have "rows_of (events s') = rows_of (events s) @ []"
    and "set (data (model s')) \<subseteq> set (data (model s)) \<union> set []"
    by (auto simp: cell14_def log_event_def split: option.splits)
  then show ?thesis by (intro exI [of _ "[]"]) simp
qed

lemma adds_cell15:
  assumes "cell15 s = Inr s'"
  shows "\<exists>new. rows_of (events s') = rows_of (events s) @ new \<and>
           set (data (model s')) \<subseteq> set (data (model s)) \<union> set new \<and>
           (\<forall>r \<in> set new. length (dr_args r) = 2 \<and>
              dr_predicate r \<in> {''Neighbors'', ''Likes'', ''Knows''})"
proof -
  from assms have "rows_of (events s') = rows_of (events s) @ []"
    and "set (data (model s')) \<subseteq> set (data (model s)) \<union> set []"
    by (auto simp: cell15_def)
  then show ?thesis by (intro exI [of _ "[]"]) simp
qed

lemma adds_cell16:
  assumes "cell16 ext s = Inr s'"
  shows "\<exists>new. rows_of (events s') = rows_of (events s) @ new \<and>
           set (data (model s')) \<subseteq> set (data (model s)) \<union> set new \<and>
           (\<forall>r \<in> set new. length (dr_args r) = 2 \<and>
              dr_predicate r \<in> {''Neighbors'', ''Likes'', ''Knows''})"
proof -
  from assms have "rows_of (events s') = rows_of (events s) @ []"
    and "set (data (model s')) \<subseteq> set (data (model s)) \<union> set []"
    by (auto simp: cell16_def split: sum.splits)
  then show ?thesis by (intro exI [of _ "[]"]) simp
qed

lemma adds_cell17:
  assumes "cell17 s = Inr s'"
  shows "\<exists>new. rows_of (events s') = rows_of (events s) @ new \<and>
           set (data (model s')) \<subseteq> set (data (model s)) \<union> set new \<and>
           (\<forall>r \<in> set new. length (dr_args r) = 2 \<and>
              dr_predicate r \<in> {''Neighbors'', ''Likes'', ''Knows''})"
proof -
  from assms have "rows_of (events s') = rows_of (events s) @ []"
    and "set (data (model s')) \<subseteq> set (data (model s)) \<union> set []"
    by (auto simp: cell17_def log_event_def split: if_splits)
  then show ?thesis by (intro exI [of _ "[]"]) simp
qed

lemma adds_cell7:
  assumes "cell7 s = Inr s'"
  shows "\<exists>new. rows_of (events s') = rows_of (events s) @ new \<and>
           set (data (model s')) \<subseteq> set (data (model s)) \<union> set new \<and>
           (\<forall>r \<in> set new. length (dr_args r) = 2 \<and>
              dr_predicate r \<in> {''Neighbors'', ''Likes'', ''Knows''})"
proof -
  from assms have s': "s' = fold (\<lambda>p. clear_data (pred_name p)) (predicates (model s)) s"
    by (simp add: cell7_def)
  from fold_clear_data [of "predicates (model s)" s]
  have "rows_of (events s') = rows_of (events s) @ []"
    and "set (data (model s')) \<subseteq> set (data (model s)) \<union> set []"
    unfolding s' by simp_all
  then show ?thesis by (intro exI [of _ "[]"]) simp
qed

lemma adds_observe_distinct:
  assumes "p \<in> {''Neighbors'', ''Likes'', ''Knows''}"
    and "s' = observe_distinct rows (log_event (Ev_query q) (get_predicate p s))"
  shows "\<exists>new. rows_of (events s') = rows_of (events s) @ new \<and>
           set (data (model s')) \<subseteq> set (data (model s)) \<union> set new \<and>
           (\<forall>r \<in> set new. length (dr_args r) = 2 \<and>
              dr_predicate r \<in> {''Neighbors'', ''Likes'', ''Knows''})"
proof -
  have "rows_of (events s') = rows_of (events s) @ observed_distinct p rows"
    and "set (data (model s')) \<subseteq> set (data (model s)) \<union> set (observed_distinct p rows)"
    unfolding assms(2) by (simp_all add: observe_distinct_eq log_event_def get_predicate_def)
  moreover have "\<forall>r \<in> set (observed_distinct p rows). length (dr_args r) = 2 \<and>
              dr_predicate r \<in> {''Neighbors'', ''Likes'', ''Knows''}"
    using assms(1) observed_distinct_rows [of _ p rows] by blast
  ultimately show ?thesis by blast
qed

lemma adds_cell9:
  assumes "cell9 ext s = Inr s'"
  shows "\<exists>new. rows_of (events s') = rows_of (events s) @ new \<and>
           set (data (model s')) \<subseteq> set (data (model s)) \<union> set new \<and>
           (\<forall>r \<in> set new. length (dr_args r) = 2 \<and>
              dr_predicate r \<in> {''Neighbors'', ''Likes'', ''Knows''})"
  using assms by (intro adds_observe_distinct [of "''Neighbors''"]) (auto simp: cell9_def run_query_def)

lemma adds_cell10:
  assumes "cell10 ext s = Inr s'"
  shows "\<exists>new. rows_of (events s') = rows_of (events s) @ new \<and>
           set (data (model s')) \<subseteq> set (data (model s)) \<union> set new \<and>
           (\<forall>r \<in> set new. length (dr_args r) = 2 \<and>
              dr_predicate r \<in> {''Neighbors'', ''Likes'', ''Knows''})"
  using assms by (intro adds_observe_distinct [of "''Likes''"]) (auto simp: cell10_def run_query_def)

lemma adds_cell12:
  assumes "cell12 ext s = Inr s'"
  shows "\<exists>new. rows_of (events s') = rows_of (events s) @ new \<and>
           set (data (model s')) \<subseteq> set (data (model s)) \<union> set new \<and>
           (\<forall>r \<in> set new. length (dr_args r) = 2 \<and>
              dr_predicate r \<in> {''Neighbors'', ''Likes'', ''Knows''})"
proof -
  from assms obtain f where
    ev: "events s' = events s @ Ev_open ''dat/psl/knows_targets.txt'' #
           concat (map (row_events ext (kg_g s) ''Knows'') (csv_reader ext (CHR 0x09) f))"
    and da: "data (model s') = data (model s) @
           concat (map (row_data ext (kg_g s) ''Knows'') (csv_reader ext (CHR 0x09) f))"
    unfolding cell12_Inr by auto
  let ?new = "concat (map (row_data ext (kg_g s) ''Knows'') (csv_reader ext (CHR 0x09) f))"
  have "rows_of (events s') = rows_of (events s) @ ?new"
    by (simp add: ev)
  moreover have "set (data (model s')) \<subseteq> set (data (model s)) \<union> set ?new"
    by (simp add: da)
  moreover have "\<forall>r \<in> set ?new. length (dr_args r) = 2 \<and>
              dr_predicate r \<in> {''Neighbors'', ''Likes'', ''Knows''}"
    by (auto dest!: row_data_args)
  ultimately show ?thesis by blast
qed

lemma adds_cell13:
  assumes "cell13 ext s = Inr s'"
  shows "\<exists>new. rows_of (events s') = rows_of (events s) @ new \<and>
           set (data (model s')) \<subseteq> set (data (model s)) \<union> set new \<and>
           (\<forall>r \<in> set new. length (dr_args r) = 2 \<and>
              dr_predicate r \<in> {''Neighbors'', ''Likes'', ''Knows''})"
proof -
  let ?new = "observed_known ''Knows'' (py_float ext ''1.0'') (targets s)
                (kg_query ext (kg_g s) query_knows) @
              observed_known ''Knows'' (py_float ext ''0.0'') (targets s)
                (kg_query ext (kg_g s) query_wantsIntro)"
  from assms have "rows_of (events s') = rows_of (events s) @ ?new"
    and "set (data (model s')) \<subseteq> set (data (model s)) \<union> set ?new"
    by (auto simp: cell13_def run_query_def get_predicate_def log_event_def observe_known_eq)
  moreover have "\<forall>r \<in> set ?new. length (dr_args r) = 2 \<and>
              dr_predicate r \<in> {''Neighbors'', ''Likes'', ''Knows''}"
    by (auto dest: observed_known_rows)
  ultimately show ?thesis by blast
qed

lemma rows_of_prints: "rows_of (map (\<lambda>x. Ev_print (f x)) xs) = []"
  by (induction xs) simp_all

lemma adds_cell18:
  assumes "cell18 ext s = Inr s'"
  shows "\<exists>new. rows_of (events s') = rows_of (events s) @ new \<and>
           set (data (model s')) \<subseteq> set (data (model s)) \<union> set new \<and>
           (\<forall>r \<in> set new. length (dr_args r) = 2 \<and>
              dr_predicate r \<in> {''Neighbors'', ''Likes'', ''Knows''})"
proof -
  from assms report_suspects_Inr [of ext "df s" s s'] obtain keys where
    "s' = s\<lparr>events := events s @ map (\<lambda>(a, b). Ev_print (suspect_line a b)) keys\<rparr>"
    by (auto simp: cell18_def)
  then have "rows_of (events s') = rows_of (events s) @ []"
    and "set (data (model s')) \<subseteq> set (data (model s)) \<union> set []"
    by (simp_all add: case_prod_unfold rows_of_prints)
  then show ?thesis by (intro exI [of _ "[]"]) simp
qed

lemma cell_adds_pairs:
  assumes "c \<in> set (ex01_7_cells ext)" and "c s = Inr s'"
  shows "\<exists>new. rows_of (events s') = rows_of (events s) @ new \<and>
           set (data (model s')) \<subseteq> set (data (model s)) \<union> set new \<and>
           (\<forall>r \<in> set new. length (dr_args r) = 2 \<and>
              dr_predicate r \<in> {''Neighbors'', ''Likes'', ''Knows''})"
proof -
  from assms(1) consider
      "c = cell1" | "c = cell2" | "c = cell3" | "c = cell4" | "c = cell5" | "c = cell6"
    | "c = cell7" | "c = cell9 ext" | "c = cell10 ext" | "c = cell11" | "c = cell12 ext"
    | "c = cell13 ext" | "c = cell14 ext" | "c = cell15" | "c = cell16 ext" | "c = cell17"
    | "c = cell18 ext"
    unfolding ex01_7_cells_def by auto
  then show ?thesis
    using assms(2)
    by cases
      (blast intro: adds_cell1 adds_cell2 adds_cell3 adds_cell4 adds_cell5 adds_cell6 adds_cell7
        adds_cell9 adds_cell10 adds_cell11 adds_cell12 adds_cell13 adds_cell14 adds_cell15
        adds_cell16 adds_cell17 adds_cell18)+
qed

lemma cell_predicates:
  assumes "c \<in> set (ex01_7_cells ext)" and "c s = Inr s'"
  shows "predicates (model s') = predicates (model s) \<or> predicates (model s') = declared"
proof -
  from assms(1) consider
      "c = cell1" | "c = cell2" | "c = cell3" | "c = cell4" | "c = cell5" | "c = cell6"
    | "c = cell7" | "c = cell9 ext" | "c = cell10 ext" | "c = cell11" | "c = cell12 ext"
    | "c = cell13 ext" | "c = cell14 ext" | "c = cell15" | "c = cell16 ext" | "c = cell17"
    | "c = cell18 ext"
    unfolding ex01_7_cells_def by auto
  then show ?thesis
  proof cases
    case 7
    with assms(2) fold_clear_data [of "predicates (model s)" s] show ?thesis
      by (auto simp: cell7_def)
  next
    case 11
    with assms(2) have "cell12 ext s = Inr s'" by simp
    then show ?thesis
      unfolding cell12_Inr by auto
  next
    case 17
    with assms(2) report_suspects_Inr [of ext "df s" s s'] show ?thesis
      by (auto simp: cell18_def)
  qed (use assms(2) in \<open>auto simp: cell_defs log_event_def add_predicate_def add_rule_def
         get_predicate_def run_query_def observe_distinct_eq observe_known_eq declared_def
         split: sum.splits option.splits if_splits\<close>)
qed

lemma cell_before_loading:
  assumes "c \<in> set (take 7 (ex01_7_cells ext))" and "c s = Inr s'"
    and "rows_of (events s) = [] \<and> data (model s) = []"
  shows "rows_of (events s') = [] \<and> data (model s') = []"
proof -
  from assms(1) consider
      "c = cell1" | "c = cell2" | "c = cell3" | "c = cell4" | "c = cell5" | "c = cell6"
    | "c = cell7"
    unfolding ex01_7_cells_def by auto
  then show ?thesis
  proof cases
    case 7
    with assms(2,3) fold_clear_data [of "predicates (model s)" s] show ?thesis
      by (auto simp: cell7_def)
  qed (use assms(2,3) in \<open>auto simp: cell_defs log_event_def add_predicate_def add_rule_def
         split: sum.splits\<close>)
qed

text \<open>
  Claim C4. After any number of cells of the notebook: every row passed to
  \<open>add_data_row\<close> so far, and every row the model holds, has exactly two arguments and
  belongs to a predicate that the model declares with size 2; every predicate declared has
  size 2; and from cell 4 on the predicates are \<open>Neighbors\<close>, \<open>Likes\<close> and \<open>Knows\<close>.
\<close>

theorem add_data_row_arity:
  assumes "run_cells (take n (ex01_7_cells ext)) (init_state fs) = Inr s"
  shows "(\<forall>r \<in> set (rows_of (events s)) \<union> set (data (model s)).
            length (dr_args r) = 2 \<and>
            (\<exists>p \<in> set (predicates (model s)). pred_name p = dr_predicate r \<and> pred_size p = 2)) \<and>
         (\<forall>p \<in> set (predicates (model s)). pred_size p = 2) \<and>
         (4 \<le> n \<longrightarrow>
            predicates (model s) =
              [Predicate ''Neighbors'' True 2, Predicate ''Likes'' True 2,
               Predicate ''Knows'' False 2])"
proof -
  let ?cells = "ex01_7_cells ext"
  let ?ok = "\<lambda>r::'a data_row. length (dr_args r) = 2 \<and>
      dr_predicate r \<in> {''Neighbors'', ''Likes'', ''Knows''}"
  let ?I = "\<lambda>s::'a state. \<forall>r \<in> set (rows_of (events s)) \<union> set (data (model s)). ?ok r"
  have pairs: "?I s"
  proof (rule run_cells_invariant [where I = ?I, OF _ _ assms])
    show "?I (init_state fs)"
      by (simp add: init_state_def)
  next
    fix c and s s' :: "'a state"
    assume c: "c \<in> set (take n ?cells)" and inv: "?I s" and run: "c s = Inr s'"
    from c have "c \<in> set ?cells" by (rule in_set_takeD)
    from cell_adds_pairs [OF this run] obtain new where
      "rows_of (events s') = rows_of (events s) @ new"
      "set (data (model s')) \<subseteq> set (data (model s)) \<union> set new"
      "\<forall>r \<in> set new. ?ok r"
      by blast
    with inv show "?I s'" by auto
  qed
  let ?Q = "\<lambda>s::'a state. predicates (model s) = [] \<or> predicates (model s) = declared"
  have preds: "?Q s"
  proof (rule run_cells_invariant [where I = ?Q, OF _ _ assms])
    show "?Q (init_state fs)"
      by (simp add: init_state_def)
  next
    fix c and s s' :: "'a state"
    assume c: "c \<in> set (take n ?cells)" and inv: "?Q s" and run: "c s = Inr s'"
    from c have "c \<in> set ?cells" by (rule in_set_takeD)
    from cell_predicates [OF this run] inv show "?Q s'" by auto
  qed
  have sizes: "\<forall>p \<in> set (predicates (model s)). pred_size p = 2"
    using preds by (auto simp: declared_def)
  have late: "predicates (model s) = declared" if "4 \<le> n"
  proof -
    from that have "take n ?cells = take 4 ?cells @ take (n - 4) (drop 4 ?cells)"
      using take_add [of 4 "n - 4" ?cells] by simp
    with assms obtain s4 where
      s4: "run_cells (take 4 ?cells) (init_state fs) = Inr s4"
      and rest: "run_cells (take (n - 4) (drop 4 ?cells)) s4 = Inr s"
      by (auto simp: run_cells_append_Inr)
    from s4 have "predicates (model s4) = declared"
      by (auto simp: ex01_7_cells_def cell1_def cell2_def cell3_def cell4_def log_event_def
          add_predicate_def declared_def split: sum.splits)
    moreover have "predicates (model s') = declared"
      if "c \<in> set (take (n - 4) (drop 4 ?cells))" "predicates (model s) = declared" "c s = Inr s'"
      for c and s s' :: "'a state"
    proof -
      from that(1) have "c \<in> set ?cells"
        by (meson in_set_dropD in_set_takeD)
      from cell_predicates [OF this that(3)] that(2) show ?thesis by auto
    qed
    ultimately show ?thesis
      using rest run_cells_invariant [where I = "\<lambda>s. predicates (model s) = declared"]
      by blast
  qed
  have early: "rows_of (events s) = [] \<and> data (model s) = []" if "n \<le> 7"
  proof (rule run_cells_invariant
      [where I = "\<lambda>s::'a state. rows_of (events s) = [] \<and> data (model s) = []", OF _ _ assms])
    show "rows_of (events (init_state fs :: 'a state)) = [] \<and>
        data (model (init_state fs :: 'a state)) = []"
      by (simp add: init_state_def)
  next
    fix c and s s' :: "'a state"
    assume c: "c \<in> set (take n ?cells)"
      and inv: "rows_of (events s) = [] \<and> data (model s) = []" and run: "c s = Inr s'"
    from c that have "c \<in> set (take 7 ?cells)"
      using set_take_subset_set_take [of n 7 ?cells] by auto
    from cell_before_loading [OF this run inv]
    show "rows_of (events s') = [] \<and> data (model s') = []" .
  qed
  have rows: "\<forall>r \<in> set (rows_of (events s)) \<union> set (data (model s)).
            length (dr_args r) = 2 \<and>
            (\<exists>p \<in> set (predicates (model s)). pred_name p = dr_predicate r \<and> pred_size p = 2)"
  proof (cases "n \<le> 7")
    case True
    with early show ?thesis by simp
  next
    case False
    then have d: "predicates (model s) = declared"
      using late by simp
    show ?thesis
    proof
      fix r
      assume "r \<in> set (rows_of (events s)) \<union> set (data (model s))"
      with pairs have len: "length (dr_args r) = 2"
        and name: "dr_predicate r \<in> {''Neighbors'', ''Likes'', ''Knows''}"
        by auto
      from name have "\<exists>p \<in> set declared. pred_name p = dr_predicate r \<and> pred_size p = 2"
        unfolding declared_def by (elim insertE emptyE) simp_all
      with len d show "length (dr_args r) = 2 \<and>
            (\<exists>p \<in> set (predicates (model s)). pred_name p = dr_predicate r \<and> pred_size p = 2)"
        by simp
    qed
  qed
  from rows sizes late show ?thesis
    by (simp add: declared_def)
qed

subsection \<open>The rows of the small run\<close>

lemma truth_for_sample:
  "truth_for sample_ext sample_graph ''1'' ''2'' = Some 1"
  "truth_for sample_ext sample_graph ''1'' ''3'' = Some 0"
  "truth_for sample_ext sample_graph ''4'' ''5'' = None"
  by (simp_all add: truth_for_def sample_graph_def sample_person_def foaf_knows_def
      acq_wantsIntro_def sample_ext_def sample_float_def)

lemma sample_queries:
  "kg_query sample_ext g query_neighbors =
     [(sample_person ''1'', sample_person ''1''), (sample_person ''1'', sample_person ''2'')]"
  "kg_query sample_ext g query_likes =
     [(sample_person ''1'', sample_person ''1''), (sample_person ''1'', sample_person ''2'')]"
  "kg_query sample_ext g query_knows =
     [(sample_person ''1'', sample_person ''2''), (sample_person ''2'', sample_person ''3'')]"
  "kg_query sample_ext g query_wantsIntro = [(sample_person ''1'', sample_person ''3'')]"
  by (simp_all add: sample_ext_def sample_query_def query_knows_def query_wantsIntro_def
      query_neighbors_def query_likes_def)

lemma sample_ext_float:
  "py_float sample_ext ''1.0'' = 1" "py_float sample_ext ''0.0'' = 0"
  "py_float sample_ext ''0.2'' = 2 / 10"
  by (simp_all add: sample_ext_def sample_float_def)

lemma sample_loading_run:
  "\<exists>s. run_cells (take 12 (ex01_7_cells sample_ext)) (init_state sample_files) = Inr s \<and>
       data (model s) =
         [Data_row ''Neighbors'' OBSERVATIONS [''1'', ''2''] None,
          Data_row ''Likes'' OBSERVATIONS [''1'', ''2''] None,
          Data_row ''Knows'' TRUTH [''1'', ''2''] (Some 1),
          Data_row ''Knows'' TARGETS [''1'', ''2''] None,
          Data_row ''Knows'' TRUTH [''1'', ''3''] (Some 0),
          Data_row ''Knows'' TARGETS [''1'', ''3''] None,
          Data_row ''Knows'' OBSERVATIONS [''2'', ''3''] (Some 1)]"
proof -
  obtain s7 where A: "run_cells [cell1, cell2, cell3, cell4, cell5, cell6, cell7]
      (init_state sample_files) = Inr (s7 :: real state)"
    unfolding preparation_cells_Inr by (simp add: sample_files_simps)
  then have f7: "files s7 ''dat/psl/knows_targets.txt'' = sample_files ''dat/psl/knows_targets.txt''"
    and g7: "kg_g s7 = sample_graph" and d7: "data (model s7) = []"
    unfolding preparation_cells_Inr by (auto simp: sample_files_simps)
  obtain s13 where B: "run_cells [cell9 sample_ext, cell10 sample_ext, cell11, cell12 sample_ext,
      cell13 sample_ext] s7 = Inr s13"
    unfolding loading_cells_Inr by (simp add: f7 sample_files_simps sample_rows)
  then have "data (model s13) =
      concat (loading_data sample_ext sample_graph [[''1'', ''2''], [''1'', ''3''], [''4'', ''5'']])"
    unfolding loading_cells_Inr by (auto simp: f7 g7 d7 sample_files_simps sample_rows)
  also have "\<dots> =
         [Data_row ''Neighbors'' OBSERVATIONS [''1'', ''2''] None,
          Data_row ''Likes'' OBSERVATIONS [''1'', ''2''] None,
          Data_row ''Knows'' TRUTH [''1'', ''2''] (Some 1),
          Data_row ''Knows'' TARGETS [''1'', ''2''] None,
          Data_row ''Knows'' TRUTH [''1'', ''3''] (Some 0),
          Data_row ''Knows'' TARGETS [''1'', ''3''] None,
          Data_row ''Knows'' OBSERVATIONS [''2'', ''3''] (Some 1)]"
    by (simp add: loading_data_def observed_distinct_simps observed_known_simps
        sample_queries get_person_id_sample truth_for_sample sample_ext_float)
  finally have d: "data (model s13) =
         [Data_row ''Neighbors'' OBSERVATIONS [''1'', ''2''] None,
          Data_row ''Likes'' OBSERVATIONS [''1'', ''2''] None,
          Data_row ''Knows'' TRUTH [''1'', ''2''] (Some 1),
          Data_row ''Knows'' TARGETS [''1'', ''2''] None,
          Data_row ''Knows'' TRUTH [''1'', ''3''] (Some 0),
          Data_row ''Knows'' TARGETS [''1'', ''3''] None,
          Data_row ''Knows'' OBSERVATIONS [''2'', ''3''] (Some 1)]" .
  have tk: "take 12 (ex01_7_cells sample_ext) =
      [cell1, cell2, cell3, cell4, cell5, cell6, cell7] @
      [cell9 sample_ext, cell10 sample_ext, cell11, cell12 sample_ext, cell13 sample_ext]"
    by (simp add: ex01_7_cells_def)
  have "run_cells (take 12 (ex01_7_cells sample_ext)) (init_state sample_files) = Inr s13"
    unfolding tk run_cells_append_Inr using A B by blast
  with d show ?thesis
    by blast
qed

theorem add_data_row_arity_witness:
  "\<exists>s. run_cells (take 12 (ex01_7_cells sample_ext)) (init_state sample_files) = Inr s \<and>
       length (data (model s)) = 7 \<and>
       list_all (\<lambda>r. length (dr_args r) = 2) (data (model s)) \<and>
       list_all (\<lambda>r. length (dr_args r) = 2) (rows_of (events s)) \<and>
       predicates (model s) =
         [Predicate ''Neighbors'' True 2, Predicate ''Likes'' True 2, Predicate ''Knows'' False 2]"
proof -
  from sample_loading_run obtain s where
    run: "run_cells (take 12 (ex01_7_cells sample_ext)) (init_state sample_files) = Inr s"
    and d: "length (data (model s)) = 7"
    by auto
  from add_data_row_arity [OF run] run d show ?thesis
    by (auto simp: list_all_iff)
qed

subsection \<open>The order of the workflow\<close>

lemma observed_distinct_mem:
  "(a, b) \<in> set rows \<Longrightarrow> get_person_id a \<noteq> get_person_id b \<Longrightarrow>
   Data_row p OBSERVATIONS [get_person_id a, get_person_id b] None \<in> set (observed_distinct p rows)"
  by (induction rows) (auto simp: observed_distinct_simps)

lemma observed_known_mem:
  "(a, b) \<in> set rows \<Longrightarrow> (get_person_id a, get_person_id b) \<notin> set ts \<Longrightarrow>
   Data_row p OBSERVATIONS [get_person_id a, get_person_id b] (Some tv)
     \<in> set (observed_known p tv ts rows)"
  by (induction rows) (auto simp: observed_known_simps)

text \<open>
  Claim C1. In a run of the notebook that reaches its end, the events are: the load of
  \<open>acq.ttl\<close> first; then the preparation of the model, with no query, no row and no
  inference; then the loading, which runs the four fixed queries in order over the loaded
  graph and passes their rows to the tables of the model; then the one call of
  \<open>model.infer\<close> on that model; then the histogram and the printed report. The rows the
  model holds when \<open>model.infer\<close> is called are exactly, in order: one observation of
  \<open>Neighbors\<close> for each row of the first query with two different persons, one observation
  of \<open>Likes\<close> for each such row of the second query, the truth and target rows of the
  targets file, and one observation of \<open>Knows\<close> for each row of the third and of the fourth
  query whose pair is not a target (with the truth values \<open>1.0\<close> and \<open>0.0\<close>). \<open>dat_val\<close>
  holds, under the key of a pair, the truth value recorded for the last target row with that
  key, and every row of the table returned has its \<open>diff\<close> set to the returned probability
  minus the value looked up in \<open>dat_val\<close>.
\<close>

theorem workflow_order:
  assumes "ex01_7 ext fs = Inr s"
  shows "\<exists>f rows loading report table.
     fs ''acq.ttl'' = Some (Ttl (kg_g s)) \<and>
     fs ''dat/psl/knows_targets.txt'' = Some (Text f) \<and> rows = csv_reader ext (CHR 0x09) f \<and>
     loading = loading_events ext (kg_g s) rows \<and>
     events s =
       Ev_load_ttl ''acq.ttl'' # preparation_events @ loading @
       Ev_infer # Ev_hist # map Ev_print report \<and>
     queries_of (preparation_events :: 'a event list) = [] \<and>
     rows_of (preparation_events :: 'a event list) = [] \<and>
     Ev_infer \<notin> set (preparation_events :: 'a event list) \<and>
     queries_of loading = [query_neighbors, query_likes, query_knows, query_wantsIntro] \<and>
     rows_of loading = data (model s) \<and> Ev_infer \<notin> set loading \<and>
     targets s = map (\<lambda>row. (row ! 0, row ! 1)) rows \<and>
     df_dat s = concat (map (row_truth ext (kg_g s)) rows) \<and>
     (\<forall>key. dat_val s key =
        (if recorded ext (df_dat s) key = [] then None
         else Some (last (recorded ext (df_dat s) key)))) \<and>
     data (model s) =
       observed_distinct ''Neighbors'' (kg_query ext (kg_g s) query_neighbors) @
       observed_distinct ''Likes'' (kg_query ext (kg_g s) query_likes) @
       concat (map (row_data ext (kg_g s) ''Knows'') rows) @
       observed_known ''Knows'' (py_float ext ''1.0'') (targets s)
         (kg_query ext (kg_g s) query_knows) @
       observed_known ''Knows'' (py_float ext ''0.0'') (targets s)
         (kg_query ext (kg_g s) query_wantsIntro) \<and>
     (\<forall>(a, b) \<in> set (kg_query ext (kg_g s) query_neighbors).
        get_person_id a \<noteq> get_person_id b \<longrightarrow>
        Data_row ''Neighbors'' OBSERVATIONS [get_person_id a, get_person_id b] None
          \<in> set (data (model s))) \<and>
     (\<forall>(a, b) \<in> set (kg_query ext (kg_g s) query_likes).
        get_person_id a \<noteq> get_person_id b \<longrightarrow>
        Data_row ''Likes'' OBSERVATIONS [get_person_id a, get_person_id b] None
          \<in> set (data (model s))) \<and>
     (\<forall>(a, b) \<in> set (kg_query ext (kg_g s) query_knows).
        (get_person_id a, get_person_id b) \<notin> set (targets s) \<longrightarrow>
        Data_row ''Knows'' OBSERVATIONS [get_person_id a, get_person_id b]
          (Some (py_float ext ''1.0'')) \<in> set (data (model s))) \<and>
     (\<forall>(a, b) \<in> set (kg_query ext (kg_g s) query_wantsIntro).
        (get_person_id a, get_person_id b) \<notin> set (targets s) \<longrightarrow>
        Data_row ''Knows'' OBSERVATIONS [get_person_id a, get_person_id b]
          (Some (py_float ext ''0.0'')) \<in> set (data (model s))) \<and>
     (\<forall>r \<in> set (data (model s)). dr_partition r = OBSERVATIONS \<longrightarrow>
        (\<exists>q \<in> set [query_neighbors, query_likes, query_knows, query_wantsIntro].
           \<exists>row \<in> set (kg_query ext (kg_g s) q).
             dr_args r = [get_person_id (fst row), get_person_id (snd row)])) \<and>
     model_infer ext (model s) = Some table \<and>
     list_all2
       (\<lambda>(p1, p2, probability) row.
          r_p1 row = p1 \<and> r_p2 row = p2 \<and> r_truth row = probability \<and>
          (\<exists>a b t. py_int ext p1 = Some a \<and> py_int ext p2 = Some b \<and>
             dat_val s (a, b) = Some t \<and> r_diff row = Some (probability - t)))
       table (df s)"
proof -
  from assms obtain s7 s13 s15 where
    A: "run_cells [cell1, cell2, cell3, cell4, cell5, cell6, cell7] (init_state fs) = Inr s7"
    and B: "run_cells [cell9 ext, cell10 ext, cell11, cell12 ext, cell13 ext] s7 = Inr s13"
    and C: "run_cells [cell14 ext, cell15] s13 = Inr s15"
    and D: "run_cells [cell16 ext, cell17, cell18 ext] s15 = Inr s"
    unfolding ex01_7_def ex01_7_cells_split run_cells_append_Inr by blast
  from A obtain g where g: "fs ''acq.ttl'' = Some (Ttl g)"
    and s7: "kg_g s7 = g" "data (model s7) = []"
      "events s7 = Ev_load_ttl ''acq.ttl'' # preparation_events"
    and f7: "files s7 ''dat/psl/knows_targets.txt'' = fs ''dat/psl/knows_targets.txt''"
    unfolding preparation_cells_Inr by auto
  from B obtain f where opened: "files s7 ''dat/psl/knows_targets.txt'' = Some (Text f)"
    and two: "list_all (\<lambda>row. length row = 2) (csv_reader ext (CHR 0x09) f)"
    and s13: "s13 = s7\<lparr>model := (model s7)\<lparr>data := data (model s7) @
                    concat (loading_data ext (kg_g s7) (csv_reader ext (CHR 0x09) f))\<rparr>,
                predicate := ''Knows'',
                targets := concat (map row_pair (csv_reader ext (CHR 0x09) f)),
                rows_list := concat (map (row_truth ext (kg_g s7)) (csv_reader ext (CHR 0x09) f)),
                df_dat := concat (map (row_truth ext (kg_g s7)) (csv_reader ext (CHR 0x09) f)),
                events := events s7 @ loading_events ext (kg_g s7) (csv_reader ext (CHR 0x09) f)\<rparr>"
    unfolding loading_cells_Inr by blast
  define rows where "rows = csv_reader ext (CHR 0x09) f"
  from C obtain table where table: "model_infer ext (model s13) = Some table"
    and s15: "s15 = s13\<lparr>predicate := ''KNOWS'', results := table,
             df := map (\<lambda>(p1, p2, t). \<lparr>r_p1 = p1, r_p2 = p2, r_truth = t, r_diff = None\<rparr>) table,
             events := events s13 @ [Ev_infer]\<rparr>"
    unfolding infer_cells_Inr by blast
  from compare_cells_Inr [OF D] obtain d rows' keys where
    d: "fill_dat_val ext (df_dat s15) Map.empty = Inr d"
    and rows': "fill_diff ext d (df s15) = Inr rows'"
    and s: "s = s15\<lparr>df := rows', dat_val := d,
                  events := events s15 @ Ev_hist # map (\<lambda>(a, b). Ev_print (suspect_line a b)) keys\<rparr>"
    by blast
  have kg: "kg_g s = g"
    by (simp add: s s15 s13 s7)
  have model: "model s = model s13"
    by (simp add: s s15)
  have targets_file: "fs ''dat/psl/knows_targets.txt'' = Some (Text f)"
    using opened f7 by simp
  have ts: "targets s = concat (map row_pair rows)"
    by (simp add: s s15 s13 rows_def)
  have ts': "targets s = map (\<lambda>row. (row ! 0, row ! 1)) rows"
    unfolding ts using two by (simp add: row_pair_two rows_def)
  have dfd: "df_dat s = concat (map (row_truth ext g) rows)"
    by (simp add: s s15 s13 s7 rows_def)
  have dv: "\<forall>key. dat_val s key =
        (if recorded ext (df_dat s) key = [] then None
         else Some (last (recorded ext (df_dat s) key)))"
  proof
    fix key
    from fill_dat_val_Inr [OF d, of key] show "dat_val s key =
        (if recorded ext (df_dat s) key = [] then None
         else Some (last (recorded ext (df_dat s) key)))"
      by (simp add: s)
  qed
  have data13: "data (model s13) = concat (loading_data ext g rows)"
    by (simp add: s13 s7 rows_def)
  have data: "data (model s) = concat (loading_data ext g rows)"
    by (simp add: model data13)
  have data': "data (model s) =
       observed_distinct ''Neighbors'' (kg_query ext g query_neighbors) @
       observed_distinct ''Likes'' (kg_query ext g query_likes) @
       concat (map (row_data ext g ''Knows'') rows) @
       observed_known ''Knows'' (py_float ext ''1.0'') (targets s) (kg_query ext g query_knows) @
       observed_known ''Knows'' (py_float ext ''0.0'') (targets s)
         (kg_query ext g query_wantsIntro)"
    by (simp add: data loading_data_def ts)
  have ev: "events s =
       Ev_load_ttl ''acq.ttl'' # preparation_events @ loading_events ext g rows @
       Ev_infer # Ev_hist # map Ev_print (map (\<lambda>(a, b). suspect_line a b) keys)"
    by (simp add: s s15 s13 s7 rows_def case_prod_unfold)
  have "list_all2
       (\<lambda>row row'. \<exists>a b t. py_int ext (r_p1 row) = Some a \<and> py_int ext (r_p2 row) = Some b \<and>
                d (a, b) = Some t \<and> row' = row\<lparr>r_diff := Some (r_truth row - t)\<rparr>)
       (map (\<lambda>(p1, p2, t). \<lparr>r_p1 = p1, r_p2 = p2, r_truth = t, r_diff = None\<rparr>) table) rows'"
    using fill_diff_Inr [OF rows'] by (simp add: s15)
  then have cmp: "list_all2
       (\<lambda>(p1, p2, probability) row.
          r_p1 row = p1 \<and> r_p2 row = p2 \<and> r_truth row = probability \<and>
          (\<exists>a b t. py_int ext p1 = Some a \<and> py_int ext p2 = Some b \<and>
             dat_val s (a, b) = Some t \<and> r_diff row = Some (probability - t)))
       table (df s)"
    unfolding list_all2_map1 by (auto simp: s elim!: list_all2_mono)
  have obs: "\<forall>r \<in> set (data (model s)). dr_partition r = OBSERVATIONS \<longrightarrow>
        (\<exists>q \<in> set [query_neighbors, query_likes, query_knows, query_wantsIntro].
           \<exists>row \<in> set (kg_query ext g q).
             dr_args r = [get_person_id (fst row), get_person_id (snd row)])"
    unfolding data using observation_loading_data by blast
  have n: "\<forall>(a, b) \<in> set (kg_query ext g query_neighbors).
        get_person_id a \<noteq> get_person_id b \<longrightarrow>
        Data_row ''Neighbors'' OBSERVATIONS [get_person_id a, get_person_id b] None
          \<in> set (data (model s))"
    unfolding data' using observed_distinct_mem by fastforce
  have l: "\<forall>(a, b) \<in> set (kg_query ext g query_likes).
        get_person_id a \<noteq> get_person_id b \<longrightarrow>
        Data_row ''Likes'' OBSERVATIONS [get_person_id a, get_person_id b] None
          \<in> set (data (model s))"
    unfolding data' using observed_distinct_mem by fastforce
  have k: "\<forall>(a, b) \<in> set (kg_query ext g query_knows).
        (get_person_id a, get_person_id b) \<notin> set (targets s) \<longrightarrow>
        Data_row ''Knows'' OBSERVATIONS [get_person_id a, get_person_id b]
          (Some (py_float ext ''1.0'')) \<in> set (data (model s))"
    unfolding data' using observed_known_mem by fastforce
  have w: "\<forall>(a, b) \<in> set (kg_query ext g query_wantsIntro).
        (get_person_id a, get_person_id b) \<notin> set (targets s) \<longrightarrow>
        Data_row ''Knows'' OBSERVATIONS [get_person_id a, get_person_id b]
          (Some (py_float ext ''0.0'')) \<in> set (data (model s))"
    unfolding data' using observed_known_mem by fastforce
  have prep: "Ev_infer \<notin> set (preparation_events :: 'a event list)"
    by (simp add: preparation_events_def)
  have load: "queries_of (loading_events ext g rows) =
      [query_neighbors, query_likes, query_knows, query_wantsIntro]"
    "rows_of (loading_events ext g rows) = data (model s)"
    "Ev_infer \<notin> set (loading_events ext g rows)"
    by (simp_all add: queries_of_loading_events rows_of_loading_events data
        infer_notin_loading_events)
  have inf: "model_infer ext (model s) = Some table"
    by (simp add: model table)
  show ?thesis
    apply (rule exI [of _ f])
    apply (rule exI [of _ rows])
    apply (rule exI [of _ "loading_events ext g rows"])
    apply (rule exI [of _ "map (\<lambda>(a, b). suspect_line a b) keys"])
    apply (rule exI [of _ table])
    unfolding kg
    apply (intro conjI)
    using g targets_file ev cmp obs prep load n l k w ts' data' inf rows_def dfd dv
    by simp_all
qed

theorem workflow_order_witness:
  "\<exists>s. ex01_7 sample_ext sample_files = Inr s \<and>
       sample_files ''acq.ttl'' = Some (Ttl (kg_g s)) \<and>
       (\<exists>report.
          events s =
            Ev_load_ttl ''acq.ttl'' # preparation_events @
            loading_events sample_ext sample_graph [[''1'', ''2''], [''1'', ''3''], [''4'', ''5'']] @
            Ev_infer # Ev_hist # map Ev_print report) \<and>
       targets s = [(''1'', ''2''), (''1'', ''3''), (''4'', ''5'')] \<and>
       data (model s) =
         [Data_row ''Neighbors'' OBSERVATIONS [''1'', ''2''] None,
          Data_row ''Likes'' OBSERVATIONS [''1'', ''2''] None,
          Data_row ''Knows'' TRUTH [''1'', ''2''] (Some 1),
          Data_row ''Knows'' TARGETS [''1'', ''2''] None,
          Data_row ''Knows'' TRUTH [''1'', ''3''] (Some 0),
          Data_row ''Knows'' TARGETS [''1'', ''3''] None,
          Data_row ''Knows'' OBSERVATIONS [''2'', ''3''] (Some 1)] \<and>
       model_infer sample_ext (model s) = Some [(PyInt 1, PyInt 2, 5 / 10), (PyInt 1, PyInt 3, 25 / 100)]"
proof -
  from sample_run obtain s where run: "ex01_7 sample_ext sample_files = Inr s" ..
  from workflow_order [OF run] obtain f rows loading report table where
    g: "sample_files ''acq.ttl'' = Some (Ttl (kg_g s))"
    and f: "sample_files ''dat/psl/knows_targets.txt'' = Some (Text f)"
    and rows: "rows = csv_reader sample_ext (CHR 0x09) f"
    and loading: "loading = loading_events sample_ext (kg_g s) rows"
    and ev: "events s =
       Ev_load_ttl ''acq.ttl'' # preparation_events @ loading @
       Ev_infer # Ev_hist # map Ev_print report"
    and ts: "targets s = map (\<lambda>row. (row ! 0, row ! 1)) rows"
    and data: "data (model s) =
       observed_distinct ''Neighbors'' (kg_query sample_ext (kg_g s) query_neighbors) @
       observed_distinct ''Likes'' (kg_query sample_ext (kg_g s) query_likes) @
       concat (map (row_data sample_ext (kg_g s) ''Knows'') rows) @
       observed_known ''Knows'' (py_float sample_ext ''1.0'') (targets s)
         (kg_query sample_ext (kg_g s) query_knows) @
       observed_known ''Knows'' (py_float sample_ext ''0.0'') (targets s)
         (kg_query sample_ext (kg_g s) query_wantsIntro)"
    and inf: "model_infer sample_ext (model s) = Some table"
    by blast
  from g have kg: "kg_g s = sample_graph"
    by (simp add: sample_files_simps)
  from f have "f = [CHR ''1'', CHR 0x09, CHR ''2'', CHR 0x0A, CHR ''1'', CHR 0x09, CHR ''3'', CHR 0x0A,
      CHR ''4'', CHR 0x09, CHR ''5'', CHR 0x0A]"
    by (simp add: sample_files_simps)
  with rows have rows': "rows = [[''1'', ''2''], [''1'', ''3''], [''4'', ''5'']]"
    by (simp add: sample_rows)
  have ts': "targets s = [(''1'', ''2''), (''1'', ''3''), (''4'', ''5'')]"
    by (simp add: ts rows')
  have data': "data (model s) =
         [Data_row ''Neighbors'' OBSERVATIONS [''1'', ''2''] None,
          Data_row ''Likes'' OBSERVATIONS [''1'', ''2''] None,
          Data_row ''Knows'' TRUTH [''1'', ''2''] (Some 1),
          Data_row ''Knows'' TARGETS [''1'', ''2''] None,
          Data_row ''Knows'' TRUTH [''1'', ''3''] (Some 0),
          Data_row ''Knows'' TARGETS [''1'', ''3''] None,
          Data_row ''Knows'' OBSERVATIONS [''2'', ''3''] (Some 1)]"
    unfolding data ts' kg rows'
    by (simp add: observed_distinct_simps observed_known_simps
        sample_queries get_person_id_sample truth_for_sample sample_ext_float)
  from inf have inf': "model_infer sample_ext (model s) =
      Some [(PyInt 1, PyInt 2, 5 / 10), (PyInt 1, PyInt 3, 25 / 100)]"
    by (simp add: sample_ext_def)
  from ev have ev': "\<exists>report.
          events s =
            Ev_load_ttl ''acq.ttl'' # preparation_events @
            loading_events sample_ext sample_graph [[''1'', ''2''], [''1'', ''3''], [''4'', ''5'']] @
            Ev_infer # Ev_hist # map Ev_print report"
    unfolding loading kg rows' by (rule exI)
  show ?thesis
    by (rule exI [of _ s]) (simp only: run g ev' ts' data' inf' simp_thms)
qed

subsection \<open>The recipe notebooks\<close>

lemma py_any_iff: "py_any bs \<longleftrightarrow> True \<in> set bs"
  by (induction bs) (auto simp: py_any_def)

lemma sez_noodle_iff:
  "sez_noodle recipe_name \<longleftrightarrow>
   (\<exists>x \<in> {''noodle'', ''spaetzle'', ''dumpling'', ''pasta''}. sublist x (str_of recipe_name))"
  unfolding sez_noodle_def py_any_iff by auto

lemma flag_recipes_eq:
  "flag_recipes rows s =
   s\<lparr>tally := tally s @
        map (\<lambda>(url, recipe_name). flags_entry (has_butter (kg_g s) url) (sez_noodle recipe_name)) rows,
     printed := printed s @
        map (\<lambda>(url, recipe_name).
               flags_line url recipe_name (has_butter (kg_g s) url) (sez_noodle recipe_name)) rows\<rparr>"
proof (induction rows arbitrary: s)
  case Nil
  show ?case by simp
next
  case (Cons row rows)
  show ?case
    by (cases row) (simp add: Cons.IH flags_entry_def flags_line_def)
qed


lemma flags_lines_zip:
  "map (\<lambda>((url, recipe_name), (butter, noodle)). flags_line url recipe_name butter noodle)
     (zip rows (map (\<lambda>(url, recipe_name). (f url, h recipe_name)) rows)) =
   map (\<lambda>(url, recipe_name). flags_line url recipe_name (f url) (h recipe_name)) rows"
  by (induction rows) auto

text \<open>
  Claim C5. Cell 11 never raises, and it computes one pair of flags for each row of the query
  result, in order: \<open>has_butter\<close> is true exactly when the triple
  \<open>(url, wtm:hasIngredient, ind:Butter)\<close> is in the graph, and \<open>sez_noodle\<close> exactly when the
  recipe name contains one of \<open>noodle\<close>, \<open>spaetzle\<close>, \<open>dumpling\<close>, \<open>pasta\<close>. The tally and
  the printed lines show these flags.
\<close>

theorem recipe_flags:
  "\<exists>s' flags.
     ex5_cell11 ext s = Inr s' \<and>
     list_all2
       (\<lambda>(url, recipe_name) (butter, noodle).
          (butter \<longleftrightarrow> (url, wtm ''hasIngredient'', ind ''Butter'') \<in> kg_g s) \<and>
          (noodle \<longleftrightarrow>
             (\<exists>x \<in> {''noodle'', ''spaetzle'', ''dumpling'', ''pasta''}.
                sublist x (str_of recipe_name))))
       (kg_query ext (kg_g s) query_flour_eggs_salt) flags \<and>
     tally s' = map (\<lambda>(butter, noodle). flags_entry butter noodle) flags \<and>
     printed s' = printed s @
       map (\<lambda>((url, recipe_name), (butter, noodle)). flags_line url recipe_name butter noodle)
         (zip (kg_query ext (kg_g s) query_flour_eggs_salt) flags)"
proof -
  let ?rows = "kg_query ext (kg_g s) query_flour_eggs_salt"
  let ?flags = "map (\<lambda>(url, recipe_name). (has_butter (kg_g s) url, sez_noodle recipe_name)) ?rows"
  have 1: "list_all2
       (\<lambda>(url, recipe_name) (butter, noodle).
          (butter \<longleftrightarrow> (url, wtm ''hasIngredient'', ind ''Butter'') \<in> kg_g s) \<and>
          (noodle \<longleftrightarrow>
             (\<exists>x \<in> {''noodle'', ''spaetzle'', ''dumpling'', ''pasta''}.
                sublist x (str_of recipe_name))))
       ?rows ?flags"
    unfolding list_all2_map2
    by (rule list_all2_refl) (auto simp: has_butter_def sez_noodle_iff)
  have 2: "map (\<lambda>((url, recipe_name), (butter, noodle)). flags_line url recipe_name butter noodle)
         (zip ?rows ?flags) =
       map (\<lambda>(url, recipe_name).
               flags_line url recipe_name (has_butter (kg_g s) url) (sez_noodle recipe_name)) ?rows"
    by (rule flags_lines_zip)
  show ?thesis
    apply (rule exI [of _ "flag_recipes ?rows (s\<lparr>tally := []\<rparr>)"])
    apply (rule exI [of _ ?flags])
    using 1 2
    by (simp add: ex5_cell11_def flag_recipes_eq case_prod_unfold comp_def)
qed

theorem recipe_flags_witness:
  "\<exists>s'. ex5_cell11 sample_recipe_ext sample_recipes = Inr s' \<and>
        tally s' = [''[True, True]'', ''[False, False]'']"
proof -
  have rows: "kg_query sample_recipe_ext g' query_flour_eggs_salt =
        [(URIRef ''https://www.food.com/recipe/137357'', Literal ''dane dumplings'' []),
         (URIRef ''https://www.food.com/recipe/277824'', Literal ''easy basic crepes'' [])]"
    for g' by (simp add: sample_recipe_ext_def)
  have g: "kg_g sample_recipes =
      {(URIRef ''https://www.food.com/recipe/137357'', wtm ''hasIngredient'', ind ''Butter'')}"
    by (simp add: sample_recipes_def)
  have dumplings:
    "(\<exists>x \<in> {''noodle'', ''spaetzle'', ''dumpling'', ''pasta''}. sublist x ''dane dumplings'') = True"
    "(\<exists>x \<in> {''noodle'', ''spaetzle'', ''dumpling'', ''pasta''}. sublist x ''easy basic crepes'') = False"
    by (simp_all add: sublist_Cons_right)
  from recipe_flags [of sample_recipe_ext sample_recipes] obtain s' flags where
    run: "ex5_cell11 sample_recipe_ext sample_recipes = Inr s'"
    and rel: "list_all2
       (\<lambda>(url, recipe_name) (butter, noodle).
          (butter \<longleftrightarrow> (url, wtm ''hasIngredient'', ind ''Butter'') \<in> kg_g sample_recipes) \<and>
          (noodle \<longleftrightarrow>
             (\<exists>x \<in> {''noodle'', ''spaetzle'', ''dumpling'', ''pasta''}.
                sublist x (str_of recipe_name))))
       (kg_query sample_recipe_ext (kg_g sample_recipes) query_flour_eggs_salt) flags"
    and tally: "tally s' = map (\<lambda>(butter, noodle). flags_entry butter noodle) flags"
    by blast
  from rel have "flags = [(True, True), (False, False)]"
    unfolding rows g by (auto simp: list_all2_Cons1 dumplings simp del: bex_simps)
  with run tally show ?thesis
    by (simp add: flags_entry_def str_bool_def)
qed

lemma annotate_eq:
  "annotate cls ids g = g \<union> (\<lambda>ident. (recipe_node ident, RDF_type, cls)) ` set ids"
  by (induction ids arbitrary: g) (auto simp: kg_add_def recipe_node_def Let_def)

lemma ids_disjoint: "set noodle_ids \<inter> set pancake_ids = {}"
  by (simp add: noodle_ids_def pancake_ids_def)

text \<open>
  Claim C10. \<open>noodle_ids\<close> and \<open>pancake_ids\<close> have no element in common. Cell 15 adds to
  the graph exactly the triples \<open>annotations\<close>: a \<open>nom:Noodle\<close> type for every noodle
  identifier and a \<open>nom:Pancake\<close> type for every pancake identifier; no node gets both.
\<close>

theorem annotations_disjoint:
  "set noodle_ids \<inter> set pancake_ids = {} \<and>
   (\<exists>s'. ex5_cell15 s = Inr s' \<and> kg_g s' = kg_g s \<union> annotations) \<and>
   annotations =
     (\<lambda>ident. (URIRef (''https://www.food.com/recipe/'' @ ident), RDF_type, nom ''Noodle''))
       ` set noodle_ids \<union>
     (\<lambda>ident. (URIRef (''https://www.food.com/recipe/'' @ ident), RDF_type, nom ''Pancake''))
       ` set pancake_ids \<and>
   \<not> ((node, RDF_type, nom ''Noodle'') \<in> annotations \<and>
      (node, RDF_type, nom ''Pancake'') \<in> annotations)"
proof -
  have a: "annotations =
     (\<lambda>ident. (recipe_node ident, RDF_type, nom ''Noodle'')) ` set noodle_ids \<union>
     (\<lambda>ident. (recipe_node ident, RDF_type, nom ''Pancake'')) ` set pancake_ids"
    by (simp add: annotations_def annotate_eq)
  have run: "\<exists>s'. ex5_cell15 s = Inr s' \<and> kg_g s' = kg_g s \<union> annotations"
    by (auto simp: ex5_cell15_def Let_def a annotate_eq)
  have distinct_classes: "nom ''Noodle'' \<noteq> nom ''Pancake''"
    by (simp add: nom_def)
  have "False" if n: "(node, RDF_type, nom ''Noodle'') \<in> annotations"
    and p: "(node, RDF_type, nom ''Pancake'') \<in> annotations"
  proof -
    from n distinct_classes obtain i where i: "i \<in> set noodle_ids" "node = recipe_node i"
      unfolding a by auto
    from p distinct_classes obtain j where j: "j \<in> set pancake_ids" "node = recipe_node j"
      unfolding a by auto
    from i j have "i = j"
      by (simp add: recipe_node_def)
    with i j ids_disjoint show False
      by auto
  qed
  with ids_disjoint run a show ?thesis
    by (auto simp: recipe_node_def)
qed

theorem annotations_disjoint_witness:
  "(URIRef ''https://www.food.com/recipe/400'', RDF_type, nom ''Noodle'') \<in> annotations \<and>
   (URIRef ''https://www.food.com/recipe/400'', RDF_type, nom ''Pancake'') \<notin> annotations \<and>
   (URIRef ''https://www.food.com/recipe/489'', RDF_type, nom ''Pancake'') \<in> annotations \<and>
   (URIRef ''https://www.food.com/recipe/489'', RDF_type, nom ''Noodle'') \<notin> annotations"
proof -
  have n: "(URIRef ''https://www.food.com/recipe/400'', RDF_type, nom ''Noodle'') \<in> annotations"
    by (simp add: annotations_def annotate_eq noodle_ids_def recipe_node_def)
  have p: "(URIRef ''https://www.food.com/recipe/489'', RDF_type, nom ''Pancake'') \<in> annotations"
    by (simp add: annotations_def annotate_eq pancake_ids_def recipe_node_def)
  from annotations_disjoint [of sample_recipes "URIRef ''https://www.food.com/recipe/400''"]
    annotations_disjoint [of sample_recipes "URIRef ''https://www.food.com/recipe/489''"] n p
  show ?thesis
    by blast
qed





















end
